theory Spec2Isabelle
  imports Main
begin

section \<open>Values exchanged with the collaborators\<close>

text \<open>
  The development embeds \<^verbatim>\<open>src/data_flow/tls_data_flow.cc\<close>. The class
  \<^verbatim>\<open>TlsDataFlow\<close> is driven by callbacks; every lambda of the source is
  defunctionalised into a constructor that carries the values the lambda captures, and
  the collaborators that hold those lambdas (the next-hop flow and the runloop) are
  fields of the state.

  A buffer is its sequence of bytes. A \<^verbatim>\<open>utils::Cancelable\<close> is the identity of
  the flag its copies share; the flags that are set are kept in the state. A user handler
  is an opaque identity: all the model records of a call is that it happened, with which
  arguments, and what the handler slot of the flow held at that moment.
\<close>

type_synonym Buffer = "nat list"
type_synonym Cancelable = nat
type_synonym Handler = nat

text \<open>\<^verbatim>\<open>utils::Error\<close> converts to \<^verbatim>\<open>false\<close> exactly when it holds no error.\<close>

datatype Error = NoError | GeneralError | InnerError nat

definition is_error :: "Error \<Rightarrow> bool" where
  "is_error e = (e \<noteq> NoError)"

record Endpoint =
  host :: string
  port :: nat

text \<open>\<^verbatim>\<open>crypto::TlsTunnel::HandShakeAction\<close>; its \<^verbatim>\<open>Error\<close> is \<open>ActionError\<close> here.\<close>

datatype HandShakeAction = Success | WantIo | ActionError

text \<open>
  How a call can fail to return: a failed \<^verbatim>\<open>assert\<close> / \<^verbatim>\<open>BOOST_ASSERT\<close>
  (assertions are taken as enabled), a call through an empty \<^verbatim>\<open>std::function\<close>, or
  an event of the environment that cannot happen in the current state.
\<close>

datatype Failure = AssertionFailed | BadFunctionCall | NotEnabled

section \<open>FlowStateMachine\<close>

text \<open>
  Modelled from the spec: \<^verbatim>\<open>FlowStateMachine\<close> is declared outside the given sources.
  The states and the guarded operations are those of section 4.1 of the specification;
  an illegal transition is a failed assertion (\<open>None\<close>).
\<close>

datatype FlowState =
  Init | Connecting | Established | Reading | Writing | ReadingWriting
  | ReadClosed | WriteClosed | Closed | ErroredState

fun ConnectBegin :: "FlowState \<Rightarrow> FlowState option" where
  "ConnectBegin Init = Some Connecting"
| "ConnectBegin _ = None"

fun Connected :: "FlowState \<Rightarrow> FlowState option" where
  "Connected Connecting = Some Established"
| "Connected _ = None"

fun ReadBegin :: "FlowState \<Rightarrow> FlowState option" where
  "ReadBegin Established = Some Reading"
| "ReadBegin Writing = Some ReadingWriting"
| "ReadBegin _ = None"

fun ReadEnd :: "FlowState \<Rightarrow> FlowState option" where
  "ReadEnd Reading = Some Established"
| "ReadEnd ReadingWriting = Some Writing"
| "ReadEnd _ = None"

fun WriteBegin :: "FlowState \<Rightarrow> FlowState option" where
  "WriteBegin Established = Some Writing"
| "WriteBegin Reading = Some ReadingWriting"
| "WriteBegin _ = None"

fun WriteEnd :: "FlowState \<Rightarrow> FlowState option" where
  "WriteEnd Writing = Some Established"
| "WriteEnd ReadingWriting = Some Reading"
| "WriteEnd _ = None"

definition Errored :: "FlowState \<Rightarrow> FlowState" where
  "Errored st = ErroredState"

section \<open>TlsTunnel\<close>

text \<open>
  \<^verbatim>\<open>crypto::TlsTunnel\<close> is declared outside the given sources, so the operations
  the flow calls on it are a parameter: a record of functions over an arbitrary tunnel
  state \<open>'t\<close>. \<^verbatim>\<open>if (utils::Buffer b = ...)\<close> tests that the buffer is not empty.
\<close>

record 't TlsTunnel =
  tunnel_SetDomain :: "string \<Rightarrow> 't \<Rightarrow> 't"
  tunnel_HandShake :: "'t \<Rightarrow> HandShakeAction \<times> 't"
  tunnel_ReadCipherTextData :: "'t \<Rightarrow> Buffer \<times> 't"
  tunnel_WriteCipherTextData :: "Buffer \<Rightarrow> 't \<Rightarrow> 't"
  tunnel_HasPlainTextDataToRead :: "'t \<Rightarrow> bool"
  tunnel_ReadPlainTextData :: "'t \<Rightarrow> Buffer \<times> 't"
  tunnel_WritePlainTextData :: "Buffer \<Rightarrow> 't \<Rightarrow> 't"
  tunnel_NeedCipherInput :: "'t \<Rightarrow> bool"
  tunnel_FinishWritingCipherData :: "'t \<Rightarrow> bool"
  tunnel_Errored :: "'t \<Rightarrow> bool"

section \<open>Suspended code\<close>

text \<open>
  \<open>Continuation\<close>: the lambdas handed to the next-hop flow, each with the
  \<^verbatim>\<open>cancelable\<close> it captures. The two write lambdas of \<^verbatim>\<open>HandShake\<close> have
  the same body and share \<open>HandShakeWriteCb\<close>.
  \<open>Closure\<close>: the lambdas handed to \<^verbatim>\<open>Runloop::Post\<close>.
  \<open>Event\<close>: a call of a user handler; the last component is the content of the
  corresponding handler slot of the flow at the moment of the call.
\<close>

datatype Continuation =
  ConnectCb Cancelable
  | HandShakeWriteCb Cancelable
  | HandShakeReadCb Cancelable
  | NextReadCb Cancelable
  | NextWriteCb Cancelable

datatype Closure =
  ReadDelivery Buffer Cancelable
  | WriteDelivery Cancelable

datatype Event =
  ReadHandlerCalled Handler Buffer Error "Handler option"
  | WriteHandlerCalled Handler Error "Handler option"
  | ConnectHandlerCalled Handler Error "Handler option"

section \<open>TlsDataFlow\<close>

text \<open>
  The members of the class, followed by the state of its environment: the set flags of
  all cancelables and the next unused identity, the operations in flight on the next-hop
  flow (\<^verbatim>\<open>data_flow_\<close>), the queue of the runloop, and the calls of user handlers
  made so far.
\<close>

record 't TlsDataFlow =
  tunnel :: 't
  state_machine :: FlowState
  connect_to :: "Endpoint option"
  read_handler :: "Handler option"
  write_handler :: "Handler option"
  connect_handler :: "Handler option"
  read_cancelable :: Cancelable
  write_cancelable :: Cancelable
  connect_cancelable :: Cancelable
  next_read_cancelable :: Cancelable
  next_write_cancelable :: Cancelable
  pending_error :: Error
  error_reported :: bool
  canceled_flags :: "Cancelable set"
  fresh :: Cancelable
  next_hop_connects :: "Continuation list"
  next_hop_reads :: "(nat \<times> Continuation) list"
  next_hop_writes :: "(Buffer \<times> Continuation) list"
  runloop :: "Closure list"
  calls :: "Event list"

text \<open>The constructor: five default-constructed cancelables, nothing armed.\<close>

definition TlsDataFlow_new :: "'t \<Rightarrow> 't TlsDataFlow" where
  "TlsDataFlow_new t =
     \<lparr> tunnel = t, state_machine = Init, connect_to = None,
       read_handler = None, write_handler = None, connect_handler = None,
       read_cancelable = 0, write_cancelable = 1, connect_cancelable = 2,
       next_read_cancelable = 3, next_write_cancelable = 4,
       pending_error = NoError, error_reported = False,
       canceled_flags = {}, fresh = 5,
       next_hop_connects = [], next_hop_reads = [], next_hop_writes = [],
       runloop = [], calls = [] \<rparr>"

subsection \<open>Cancelable, runloop and next hop\<close>

text \<open>
  Modelled from the spec: \<^verbatim>\<open>utils::Cancelable\<close>, \<^verbatim>\<open>utils::Runloop\<close> and the
  next-hop flow are declared outside the given sources. A cancelable is a shared flag set
  by \<^verbatim>\<open>Cancel\<close> only; \<^verbatim>\<open>Post\<close> is first in, first out; the next hop keeps each
  operation until it completes, answers \<^verbatim>\<open>IsReading\<close> / \<^verbatim>\<open>IsWriting\<close> while one
  is in flight, hands out a new cancelable per operation and never calls back inline.
\<close>

definition Cancelable_new :: "'t TlsDataFlow \<Rightarrow> Cancelable \<times> 't TlsDataFlow" where
  "Cancelable_new s = (fresh s, s\<lparr>fresh := Suc (fresh s)\<rparr>)"

definition Cancel :: "Cancelable \<Rightarrow> 't TlsDataFlow \<Rightarrow> 't TlsDataFlow" where
  "Cancel c s = s\<lparr>canceled_flags := insert c (canceled_flags s)\<rparr>"

definition canceled :: "Cancelable \<Rightarrow> 't TlsDataFlow \<Rightarrow> bool" where
  "canceled c s = (c \<in> canceled_flags s)"

definition Post :: "Closure \<Rightarrow> 't TlsDataFlow \<Rightarrow> 't TlsDataFlow" where
  "Post c s = s\<lparr>runloop := runloop s @ [c]\<rparr>"

definition IsReading :: "'t TlsDataFlow \<Rightarrow> bool" where
  "IsReading s = (next_hop_reads s \<noteq> [])"

definition IsWriting :: "'t TlsDataFlow \<Rightarrow> bool" where
  "IsWriting s = (next_hop_writes s \<noteq> [])"

definition next_hop_Connect :: "Continuation \<Rightarrow> 't TlsDataFlow \<Rightarrow> Cancelable \<times> 't TlsDataFlow" where
  "next_hop_Connect k s =
     (fresh s, s\<lparr>fresh := Suc (fresh s), next_hop_connects := next_hop_connects s @ [k]\<rparr>)"

definition next_hop_Read :: "nat \<Rightarrow> Continuation \<Rightarrow> 't TlsDataFlow \<Rightarrow> Cancelable \<times> 't TlsDataFlow" where
  "next_hop_Read n k s =
     (fresh s, s\<lparr>fresh := Suc (fresh s), next_hop_reads := next_hop_reads s @ [(n, k)]\<rparr>)"

definition next_hop_Write :: "Buffer \<Rightarrow> Continuation \<Rightarrow> 't TlsDataFlow \<Rightarrow> Cancelable \<times> 't TlsDataFlow" where
  "next_hop_Write b k s =
     (fresh s, s\<lparr>fresh := Suc (fresh s), next_hop_writes := next_hop_writes s @ [(b, k)]\<rparr>)"

subsection \<open>Calling a user handler\<close>

definition record_call :: "Event \<Rightarrow> 't TlsDataFlow \<Rightarrow> 't TlsDataFlow" where
  "record_call ev s = s\<lparr>calls := calls s @ [ev]\<rparr>"

text \<open>\<^verbatim>\<open>connect_handler_(error)\<close>: the member is called as it is, empty or not.\<close>

definition call_connect_handler :: "Error \<Rightarrow> 't TlsDataFlow \<Rightarrow> Failure + 't TlsDataFlow" where
  "call_connect_handler error s =
     (case connect_handler s of
        None \<Rightarrow> Inl BadFunctionCall
      | Some handler \<Rightarrow> Inr (record_call (ConnectHandlerCalled handler error (connect_handler s)) s))"

subsection \<open>Error reporting\<close>

definition ReadReportError :: "Error \<Rightarrow> 't TlsDataFlow \<Rightarrow> bool \<times> 't TlsDataFlow" where
  "ReadReportError error s =
     (case read_handler s of
        Some handler \<Rightarrow>
          (let s1 = record_call (ReadHandlerCalled handler [] error (read_handler s)) s
           in (True, s1\<lparr>read_handler := None\<rparr>))
      | None \<Rightarrow> (False, s))"

definition WriteReportError :: "Error \<Rightarrow> 't TlsDataFlow \<Rightarrow> bool \<times> 't TlsDataFlow" where
  "WriteReportError error s =
     (case write_handler s of
        Some handler \<Rightarrow>
          (let s1 = record_call (WriteHandlerCalled handler error (write_handler s)) s
           in (True, s1\<lparr>write_handler := None\<rparr>))
      | None \<Rightarrow> (False, s))"

definition ReportError :: "Error \<Rightarrow> bool \<Rightarrow> 't TlsDataFlow \<Rightarrow> bool \<times> 't TlsDataFlow" where
  "ReportError error try_read_first s =
     (case (if try_read_first then ReadReportError error s else WriteReportError error s) of
        (True, s1) \<Rightarrow> (True, s1)
      | (False, s1) \<Rightarrow>
          (if try_read_first then WriteReportError error s1 else ReadReportError error s1))"

subsection \<open>The steady-state pump\<close>

definition TryReadNextHop :: "'t TlsDataFlow \<Rightarrow> 't TlsDataFlow" where
  "TryReadNextHop s =
     (if IsReading s then s
      else (case next_hop_Read 8192 (NextReadCb (read_cancelable s)) s of
              (c, s1) \<Rightarrow> s1\<lparr>next_read_cancelable := c\<rparr>))"

definition TryWriteNextHop :: "'t TlsTunnel \<Rightarrow> 't TlsDataFlow \<Rightarrow> 't TlsDataFlow" where
  "TryWriteNextHop T s =
     (if IsWriting s then s
      else if tunnel_FinishWritingCipherData T (tunnel s) then s
      else (case tunnel_ReadCipherTextData T (tunnel s) of
              (b, t1) \<Rightarrow>
                (case next_hop_Write b (NextWriteCb (write_cancelable s)) (s\<lparr>tunnel := t1\<rparr>) of
                   (c, s1) \<Rightarrow> s1\<lparr>next_write_cancelable := c\<rparr>)))"

definition TryRead :: "'t TlsTunnel \<Rightarrow> 't TlsDataFlow \<Rightarrow> 't TlsDataFlow" where
  "TryRead T s =
     (if read_handler s \<noteq> None then
        (if tunnel_HasPlainTextDataToRead T (tunnel s) then
           (case tunnel_ReadPlainTextData T (tunnel s) of
              (buffer, t1) \<Rightarrow>
                (let s1 = Post (ReadDelivery buffer (read_cancelable s)) (s\<lparr>tunnel := t1\<rparr>)
                 in if tunnel_NeedCipherInput T (tunnel s1) then TryReadNextHop s1 else s1))
         else TryReadNextHop s)
      else (if tunnel_NeedCipherInput T (tunnel s) then TryReadNextHop s else s))"

definition TryWrite :: "'t TlsTunnel \<Rightarrow> 't TlsDataFlow \<Rightarrow> 't TlsDataFlow" where
  "TryWrite T s =
     (if tunnel_FinishWritingCipherData T (tunnel s) \<and> write_handler s \<noteq> None then
        Post (WriteDelivery (write_cancelable s)) s
      else if \<not> tunnel_FinishWritingCipherData T (tunnel s) then TryWriteNextHop T s
      else s)"

definition Process :: "'t TlsTunnel \<Rightarrow> 't TlsDataFlow \<Rightarrow> 't TlsDataFlow" where
  "Process T s =
     (if error_reported s then s
      else if is_error (pending_error s) then
        (case ReportError (pending_error s) True s of
           (True, s1) \<Rightarrow> s1\<lparr>error_reported := True\<rparr>
         | (False, s1) \<Rightarrow> s1)
      else TryWrite T (TryRead T s))"

subsection \<open>The handshake driver\<close>

definition HandShake :: "'t TlsTunnel \<Rightarrow> 't TlsDataFlow \<Rightarrow> Failure + 't TlsDataFlow" where
  "HandShake T s =
     (case tunnel_HandShake T (tunnel s) of
        (Success, t1) \<Rightarrow>
          (case tunnel_ReadCipherTextData T t1 of
             (b, t2) \<Rightarrow>
               (if b \<noteq> [] then
                  (case next_hop_Write b (HandShakeWriteCb (connect_cancelable s)) (s\<lparr>tunnel := t2\<rparr>) of
                     (c, s1) \<Rightarrow> Inr (s1\<lparr>write_cancelable := c\<rparr>))
                else
                  (case Connected (state_machine s) of
                     None \<Rightarrow> Inl AssertionFailed
                   | Some st \<Rightarrow>
                       (case call_connect_handler NoError (s\<lparr>tunnel := t2, state_machine := st\<rparr>) of
                          Inl f \<Rightarrow> Inl f
                        | Inr s1 \<Rightarrow> Inr (s1\<lparr>connect_handler := None\<rparr>)))))
      | (WantIo, t1) \<Rightarrow>
          (case tunnel_ReadCipherTextData T t1 of
             (b, t2) \<Rightarrow>
               (if b \<noteq> [] then
                  (case next_hop_Write b (HandShakeWriteCb (connect_cancelable s)) (s\<lparr>tunnel := t2\<rparr>) of
                     (c, s1) \<Rightarrow> Inr (s1\<lparr>write_cancelable := c\<rparr>))
                else
                  (case next_hop_Read 8192 (HandShakeReadCb (connect_cancelable s)) (s\<lparr>tunnel := t2\<rparr>) of
                     (c, s1) \<Rightarrow> Inr (s1\<lparr>read_cancelable := c\<rparr>))))
      | (ActionError, t1) \<Rightarrow>
          call_connect_handler GeneralError
            (s\<lparr>tunnel := t1, state_machine := Errored (state_machine s)\<rparr>))"

subsection \<open>The bodies of the lambdas\<close>

text \<open>
  A continuation runs with the buffer and the error the next hop completes with (the
  connect and write lambdas take the error only).
\<close>

fun run_continuation ::
  "'t TlsTunnel \<Rightarrow> Continuation \<Rightarrow> Buffer \<Rightarrow> Error \<Rightarrow> 't TlsDataFlow \<Rightarrow> Failure + 't TlsDataFlow" where
  "run_continuation T (ConnectCb cancelable) buffer error s =
     (if canceled cancelable s then Inr s
      else if is_error error then call_connect_handler error s
      else HandShake T s)"
| "run_continuation T (HandShakeWriteCb cancelable) buffer error s =
     (if canceled cancelable s then Inr s
      else if is_error error then
        call_connect_handler error (s\<lparr>state_machine := Errored (state_machine s)\<rparr>)
      else HandShake T s)"
| "run_continuation T (HandShakeReadCb cancelable) buffer error s =
     (if canceled cancelable s then Inr s
      else if is_error error then
        call_connect_handler error (s\<lparr>state_machine := Errored (state_machine s)\<rparr>)
      else
        (let s1 = s\<lparr>tunnel := tunnel_WriteCipherTextData T buffer (tunnel s)\<rparr>
         in if tunnel_Errored T (tunnel s1) then Inl AssertionFailed
            else HandShake T s1))"
| "run_continuation T (NextReadCb cancelable) buffer error s =
     (if canceled cancelable s then Inr s
      else if is_error error then
        (case ReportError error True s of
           (False, s1) \<Rightarrow> Inr (s1\<lparr>pending_error := error\<rparr>)
         | (True, s1) \<Rightarrow> Inr (s1\<lparr>error_reported := True\<rparr>))
      else Inr (Process T (s\<lparr>tunnel := tunnel_WriteCipherTextData T buffer (tunnel s)\<rparr>)))"
| "run_continuation T (NextWriteCb cancelable) buffer error s =
     (if canceled cancelable s then Inr s
      else if is_error error then
        (case ReportError error False s of
           (False, s1) \<Rightarrow> Inr (s1\<lparr>pending_error := error\<rparr>)
         | (True, s1) \<Rightarrow> Inr (s1\<lparr>error_reported := True\<rparr>))
      else Inr (Process T s))"

fun run_closure :: "Closure \<Rightarrow> 't TlsDataFlow \<Rightarrow> Failure + 't TlsDataFlow" where
  "run_closure (ReadDelivery buffer cancelable) s =
     (if canceled cancelable s then Inr s
      else (case ReadEnd (state_machine s) of
              None \<Rightarrow> Inl AssertionFailed
            | Some st \<Rightarrow>
                (case read_handler s of
                   None \<Rightarrow> Inl BadFunctionCall
                 | Some handler \<Rightarrow>
                     (let s1 = s\<lparr>state_machine := st, read_handler := None\<rparr>
                      in Inr (record_call
                                (ReadHandlerCalled handler buffer NoError (read_handler s1)) s1)))))"
| "run_closure (WriteDelivery cancelable) s =
     (if canceled cancelable s then Inr s
      else (case WriteEnd (state_machine s) of
              None \<Rightarrow> Inl AssertionFailed
            | Some st \<Rightarrow>
                (case write_handler s of
                   None \<Rightarrow> Inl BadFunctionCall
                 | Some handler \<Rightarrow>
                     (let s1 = s\<lparr>state_machine := st, write_handler := None\<rparr>
                      in Inr (record_call
                                (WriteHandlerCalled handler NoError (write_handler s1)) s1)))))"

subsection \<open>The public member functions\<close>

definition Read ::
  "'t TlsTunnel \<Rightarrow> Buffer \<Rightarrow> Handler \<Rightarrow> 't TlsDataFlow \<Rightarrow> Failure + (Cancelable \<times> 't TlsDataFlow)" where
  "Read T buffer handler s =
     (if error_reported s then Inl AssertionFailed
      else (case Cancelable_new s of
              (c, s1) \<Rightarrow>
                (let s2 = s1\<lparr>read_cancelable := c, read_handler := Some handler\<rparr>
                 in case ReadBegin (state_machine s2) of
                      None \<Rightarrow> Inl AssertionFailed
                    | Some st \<Rightarrow>
                        (let s3 = Process T (s2\<lparr>state_machine := st\<rparr>)
                         in Inr (read_cancelable s3, s3)))))"

definition Write ::
  "'t TlsTunnel \<Rightarrow> Buffer \<Rightarrow> Handler \<Rightarrow> 't TlsDataFlow \<Rightarrow> Failure + (Cancelable \<times> 't TlsDataFlow)" where
  "Write T buffer handler s =
     (if error_reported s then Inl AssertionFailed
      else (case Cancelable_new s of
              (c, s1) \<Rightarrow>
                (let s2 = s1\<lparr>write_cancelable := c, write_handler := Some handler\<rparr>
                 in case WriteBegin (state_machine s2) of
                      None \<Rightarrow> Inl AssertionFailed
                    | Some st \<Rightarrow>
                        (let s3 = Process T
                                    (s2\<lparr>state_machine := st,
                                        tunnel := tunnel_WritePlainTextData T buffer (tunnel s2)\<rparr>)
                         in Inr (write_cancelable s3, s3)))))"

definition CloseWrite :: "Handler \<Rightarrow> 't TlsDataFlow \<Rightarrow> Cancelable \<times> 't TlsDataFlow" where
  "CloseWrite handler s = (write_cancelable s, s)"

definition Connect ::
  "'t TlsTunnel \<Rightarrow> Endpoint \<Rightarrow> Handler \<Rightarrow> 't TlsDataFlow \<Rightarrow> Failure + (Cancelable \<times> 't TlsDataFlow)" where
  "Connect T endpoint handler s =
     (case Cancelable_new s of
        (c, s1) \<Rightarrow>
          (let s2 = s1\<lparr>connect_cancelable := c, connect_to := Some endpoint,
                       tunnel := tunnel_SetDomain T (host endpoint) (tunnel s1),
                       connect_handler := Some handler\<rparr>
           in case ConnectBegin (state_machine s2) of
                None \<Rightarrow> Inl AssertionFailed
              | Some st \<Rightarrow>
                  (case next_hop_Connect (ConnectCb (connect_cancelable s2)) (s2\<lparr>state_machine := st\<rparr>) of
                     (_, s3) \<Rightarrow> Inr (connect_cancelable s3, s3))))"

text \<open>The destructor.\<close>

definition TlsDataFlow_delete :: "'t TlsDataFlow \<Rightarrow> 't TlsDataFlow" where
  "TlsDataFlow_delete s =
     Cancel (next_write_cancelable s)
       (Cancel (next_read_cancelable s)
          (Cancel (connect_cancelable s)
             (Cancel (write_cancelable s)
                (Cancel (read_cancelable s) s))))"

section \<open>Runs\<close>

text \<open>
  What can happen to a flow: the user calls a member function, cancels a cancelable or
  destroys the flow; the next hop completes its oldest connect, read or write; the runloop
  runs its oldest closure. The next hop ends an operation before it calls the
  continuation, as the flow itself does in its posted closures. A user handler does not
  call back into the flow from inside its own call: what the user does in reaction to a
  handler is the next action of the run.
\<close>

datatype Action =
  CallConnect Endpoint Handler
  | CallRead Buffer Handler
  | CallWrite Buffer Handler
  | CallCloseWrite Handler
  | CancelToken Cancelable
  | Destroy
  | ConnectCompletes Error
  | ReadCompletes Buffer Error
  | WriteCompletes Error
  | RunloopTurn

definition drop_result :: "Failure + ('a \<times> 's) \<Rightarrow> Failure + 's" where
  "drop_result r = (case r of Inl f \<Rightarrow> Inl f | Inr (_, s) \<Rightarrow> Inr s)"

fun step :: "'t TlsTunnel \<Rightarrow> Action \<Rightarrow> 't TlsDataFlow \<Rightarrow> Failure + 't TlsDataFlow" where
  "step T (CallConnect endpoint handler) s = drop_result (Connect T endpoint handler s)"
| "step T (CallRead buffer handler) s = drop_result (Read T buffer handler s)"
| "step T (CallWrite buffer handler) s = drop_result (Write T buffer handler s)"
| "step T (CallCloseWrite handler) s = Inr (snd (CloseWrite handler s))"
| "step T (CancelToken c) s = Inr (Cancel c s)"
| "step T Destroy s = Inr (TlsDataFlow_delete s)"
| "step T (ConnectCompletes error) s =
     (case next_hop_connects s of
        [] \<Rightarrow> Inl NotEnabled
      | k # ks \<Rightarrow> run_continuation T k [] error (s\<lparr>next_hop_connects := ks\<rparr>))"
| "step T (ReadCompletes buffer error) s =
     (case next_hop_reads s of
        [] \<Rightarrow> Inl NotEnabled
      | (n, k) # ks \<Rightarrow> run_continuation T k buffer error (s\<lparr>next_hop_reads := ks\<rparr>))"
| "step T (WriteCompletes error) s =
     (case next_hop_writes s of
        [] \<Rightarrow> Inl NotEnabled
      | (b, k) # ks \<Rightarrow> run_continuation T k [] error (s\<lparr>next_hop_writes := ks\<rparr>))"
| "step T RunloopTurn s =
     (case runloop s of
        [] \<Rightarrow> Inl NotEnabled
      | c # cs \<Rightarrow> run_closure c (s\<lparr>runloop := cs\<rparr>))"

fun run :: "'t TlsTunnel \<Rightarrow> Action list \<Rightarrow> 't TlsDataFlow \<Rightarrow> Failure + 't TlsDataFlow" where
  "run T [] s = Inr s"
| "run T (a # as) s = (case step T a s of Inl f \<Rightarrow> Inl f | Inr s1 \<Rightarrow> run T as s1)"

section \<open>A scripted tunnel\<close>

text \<open>
  A tunnel for concrete runs, after the scenarios of section 8 of the specification:
  the handshake answers are scripted together with the ciphertext they produce, plaintext
  is ciphered by adding one to every byte, and feeding the buffer \<open>[0]\<close> puts the tunnel
  into its error state.
\<close>

record Scripted =
  hs_script :: "(HandShakeAction \<times> Buffer) list"
  cipher_out :: "Buffer list"
  plain_out :: "Buffer list"
  need_cipher :: bool
  is_errored :: bool
  domain :: string

definition scripted :: "Scripted TlsTunnel" where
  "scripted =
     \<lparr> tunnel_SetDomain = (\<lambda>h t. t\<lparr>domain := h\<rparr>),
       tunnel_HandShake = (\<lambda>t. case hs_script t of
            [] \<Rightarrow> (Success, t)
          | (a, c) # rest \<Rightarrow>
              (a, t\<lparr>hs_script := rest,
                    cipher_out := cipher_out t @ (if c = [] then [] else [c])\<rparr>)),
       tunnel_ReadCipherTextData = (\<lambda>t. case cipher_out t of
            [] \<Rightarrow> ([], t)
          | c # cs \<Rightarrow> (c, t\<lparr>cipher_out := cs\<rparr>)),
       tunnel_WriteCipherTextData = (\<lambda>b t.
            if b = [0] then t\<lparr>is_errored := True\<rparr>
            else if b = [] then t
            else t\<lparr>plain_out := plain_out t @ [map (\<lambda>x. x - 1) b]\<rparr>),
       tunnel_HasPlainTextDataToRead = (\<lambda>t. plain_out t \<noteq> []),
       tunnel_ReadPlainTextData = (\<lambda>t. case plain_out t of
            [] \<Rightarrow> ([], t)
          | p # ps \<Rightarrow> (p, t\<lparr>plain_out := ps\<rparr>)),
       tunnel_WritePlainTextData = (\<lambda>b t. t\<lparr>cipher_out := cipher_out t @ [map Suc b]\<rparr>),
       tunnel_NeedCipherInput = need_cipher,
       tunnel_FinishWritingCipherData = (\<lambda>t. cipher_out t = []),
       tunnel_Errored = is_errored \<rparr>"

definition script :: "(HandShakeAction \<times> Buffer) list \<Rightarrow> bool \<Rightarrow> Scripted" where
  "script hs need =
     \<lparr> hs_script = hs, cipher_out = [], plain_out = [], need_cipher = need,
       is_errored = False, domain = [] \<rparr>"

definition example_endpoint :: Endpoint where
  "example_endpoint = \<lparr> host = ''example.org'', port = 443 \<rparr>"

section \<open>Auxiliary notions\<close>

text \<open>
  The flow with the two members \<^verbatim>\<open>next_read_cancelable_\<close> and
  \<^verbatim>\<open>next_write_cancelable_\<close> overwritten: two flows that agree after this differ at
  most in what these two members hold.
\<close>

definition without_next :: "'t TlsDataFlow \<Rightarrow> 't TlsDataFlow" where
  "without_next s = s\<lparr>next_read_cancelable := 0, next_write_cancelable := 0\<rparr>"

text \<open>
  An established flow over the scripted tunnel, with one chunk of ciphertext waiting to be
  sent and the tunnel asking for ciphertext input.
\<close>

definition steady :: "Scripted TlsDataFlow" where
  "steady =
     (TlsDataFlow_new ((script [] True)\<lparr>cipher_out := [[105]]\<rparr>))\<lparr>state_machine := Established\<rparr>"

text \<open>
  A flow in state \<open>Reading\<close> whose tunnel holds no plaintext and does not ask for
  ciphertext: what \<^verbatim>\<open>Read\<close> hands to \<^verbatim>\<open>Process\<close> right after the handshake.
\<close>

definition waiting_reader :: "Scripted TlsDataFlow" where
  "waiting_reader =
     (TlsDataFlow_new (script [] False))\<lparr>state_machine := Reading, read_handler := Some 1\<rparr>"

text \<open>
  A run that leaves an error pending while the tunnel holds plaintext: the handshake
  succeeds at once, a write is armed and delivered, the next hop delivers one record
  (read opportunistically, no read handler being registered), and the following read of
  the next hop fails with no handler registered.
\<close>


definition pending_run :: "Action list" where
  "pending_run =
     [CallConnect example_endpoint 7, ConnectCompletes NoError, CallWrite [104] 2,
      WriteCompletes NoError, RunloopTurn, ReadCompletes [106] NoError,
      ReadCompletes [] (InnerError 1)]"

text \<open>
  Concrete handshakes and runs: a handshake in which the next hop delivers the buffer that
  breaks the scripted tunnel; a flow in the middle of its handshake, for a given script;
  an established flow with a read and a write armed, on which the read and then the write
  of the next hop fail.
\<close>

definition poisoned_handshake :: "Action list" where
  "poisoned_handshake =
     [CallConnect example_endpoint 7, ConnectCompletes NoError, ReadCompletes [0] NoError]"

definition connecting :: "(HandShakeAction \<times> Buffer) list \<Rightarrow> Scripted TlsDataFlow" where
  "connecting hs =
     (TlsDataFlow_new (script hs False))
       \<lparr>state_machine := Connecting, connect_handler := Some 7, connect_cancelable := 5,
        fresh := 7\<rparr>"

definition two_errors :: "Action list" where
  "two_errors =
     [CallConnect example_endpoint 7, ConnectCompletes NoError, CallRead [] 1, CallWrite [104] 2,
      ReadCompletes [] (InnerError 1), WriteCompletes (InnerError 2)]"

text \<open>
  A run in which plaintext arrives for an armed read, a write is armed before the runloop
  turns, and the write of the next hop fails.
\<close>

definition late_read :: "Action list" where
  "late_read =
     [CallConnect example_endpoint 7, ConnectCompletes NoError, CallRead [] 1,
      ReadCompletes [106] NoError, CallWrite [104] 2, WriteCompletes (InnerError 2), RunloopTurn]"

text \<open>
  The invariant behind the coalescing of operations on the next hop. The lambdas of the
  handshake are in flight only in state \<open>Connecting\<close>, one at a time; the lambdas of the
  pump only in the states in which data flows, at most one read and one write; nothing is
  in flight before \<^verbatim>\<open>Connect\<close> and after a failed handshake.
\<close>

fun handshake_lambda :: "Continuation \<Rightarrow> bool" where
  "handshake_lambda (ConnectCb c) = True"
| "handshake_lambda (HandShakeWriteCb c) = True"
| "handshake_lambda (HandShakeReadCb c) = True"
| "handshake_lambda (NextReadCb c) = False"
| "handshake_lambda (NextWriteCb c) = False"

fun data_state :: "FlowState \<Rightarrow> bool" where
  "data_state Established = True"
| "data_state Reading = True"
| "data_state Writing = True"
| "data_state ReadingWriting = True"
| "data_state _ = False"

definition in_flight :: "'t TlsDataFlow \<Rightarrow> Continuation list" where
  "in_flight s = next_hop_connects s @ map snd (next_hop_reads s) @ map snd (next_hop_writes s)"

definition coalesced :: "'t TlsDataFlow \<Rightarrow> bool" where
  "coalesced s =
     (if state_machine s = Connecting then
        length (in_flight s) \<le> 1 \<and> list_all handshake_lambda (in_flight s)
      else if data_state (state_machine s) then
        next_hop_connects s = [] \<and> length (next_hop_reads s) \<le> 1
        \<and> length (next_hop_writes s) \<le> 1
        \<and> list_all (\<lambda>k. \<not> handshake_lambda k) (in_flight s)
      else (state_machine s = Init \<or> state_machine s = ErroredState) \<and> in_flight s = [])"

definition pumping :: "'t TlsDataFlow \<Rightarrow> bool" where
  "pumping s = (data_state (state_machine s) \<and> coalesced s)"











text \<open>
  Two runs over the scripted tunnel. In \<open>starved_writer\<close> a read and a write are armed, the
  read of the next hop fails and its write succeeds. In \<open>canceled_reader\<close> a write and then
  a read are armed, the write is delivered from the runloop while its operation on the next
  hop is still in flight, the user cancels the read, and the write of the next hop fails.
\<close>

definition starved_writer :: "Action list" where
  "starved_writer =
     [CallConnect example_endpoint 7, ConnectCompletes NoError, CallRead [] 1, CallWrite [104] 2,
      ReadCompletes [] (InnerError 1), WriteCompletes NoError]"

definition canceled_reader :: "Action list" where
  "canceled_reader =
     [CallConnect example_endpoint 7, ConnectCompletes NoError, CallWrite [104] 2, CallRead [] 1,
      RunloopTurn, CancelToken 9, WriteCompletes (InnerError 2)]"


section \<open>Evaluation and basic facts\<close>

lemmas flow_defs = Process_def TryRead_def TryWrite_def TryReadNextHop_def TryWriteNextHop_def
  ReportError_def ReadReportError_def WriteReportError_def record_call_def Post_def
  next_hop_Read_def next_hop_Write_def next_hop_Connect_def IsReading_def IsWriting_def
  Read_def Write_def Connect_def CloseWrite_def HandShake_def call_connect_handler_def
  Cancelable_new_def Cancel_def canceled_def TlsDataFlow_delete_def drop_result_def
  is_error_def Errored_def Let_def

lemmas scenario_defs = TlsDataFlow_new_def scripted_def script_def example_endpoint_def steady_def
  waiting_reader_def pending_run_def poisoned_handshake_def connecting_def two_errors_def
  starved_writer_def canceled_reader_def

section \<open>CloseWrite\<close>

text \<open>
  Claim C9. \<^verbatim>\<open>CloseWrite(handler)\<close> is a placeholder without effect: it returns the
  current write cancelable, the flow and its environment are left exactly as they were
  (no state-machine transition, no tunnel call, no next-hop call, nothing posted), and no
  handler is called, the supplied one included.
\<close>

theorem CloseWrite_is_noop:
  "fst (CloseWrite handler s) = write_cancelable s
   \<and> snd (CloseWrite handler s) = s
   \<and> step T (CallCloseWrite handler) s = Inr s
   \<and> calls (snd (CloseWrite handler s)) = calls s"
  by (simp add: CloseWrite_def)


section \<open>The cancelables of the next hop\<close>

text \<open>
  No member function and no lambda reads \<^verbatim>\<open>next_read_cancelable_\<close> or
  \<^verbatim>\<open>next_write_cancelable_\<close>: up to these two members, every step but the
  destruction of the flow does the same whatever they hold.
\<close>
lemma without_next_simps [simp]:
  "tunnel (without_next s) = tunnel s" "state_machine (without_next s) = state_machine s"
  "connect_handler (without_next s) = connect_handler s" "connect_cancelable (without_next s) = connect_cancelable s"
  "read_handler (without_next s) = read_handler s" "write_handler (without_next s) = write_handler s"
  "read_cancelable (without_next s) = read_cancelable s" "write_cancelable (without_next s) = write_cancelable s"
  "pending_error (without_next s) = pending_error s" "error_reported (without_next s) = error_reported s"
  "canceled_flags (without_next s) = canceled_flags s" "runloop (without_next s) = runloop s"
  "next_hop_connects (without_next s) = next_hop_connects s"
  "fresh (without_next s) = fresh s" "next_hop_writes (without_next s) = next_hop_writes s"
  "next_hop_reads (without_next s) = next_hop_reads s" "calls (without_next s) = calls s"
  by (simp_all add: without_next_def)

lemma without_next_idem [simp]: "without_next (without_next s) = without_next s"
  by (simp add: without_next_def)

lemma without_next_commute:
  "without_next (s\<lparr>error_reported := x\<rparr>) = (without_next s)\<lparr>error_reported := x\<rparr>"
  "without_next (s\<lparr>pending_error := e\<rparr>) = (without_next s)\<lparr>pending_error := e\<rparr>"
  "without_next (s\<lparr>connect_handler := h\<rparr>) = (without_next s)\<lparr>connect_handler := h\<rparr>"
  "without_next (s\<lparr>tunnel := t\<rparr>) = (without_next s)\<lparr>tunnel := t\<rparr>"
  "without_next (s\<lparr>state_machine := st\<rparr>) = (without_next s)\<lparr>state_machine := st\<rparr>"
  "without_next (s\<lparr>next_hop_connects := ks\<rparr>) = (without_next s)\<lparr>next_hop_connects := ks\<rparr>"
  "without_next (s\<lparr>next_hop_reads := rs\<rparr>) = (without_next s)\<lparr>next_hop_reads := rs\<rparr>"
  "without_next (s\<lparr>next_hop_writes := ws\<rparr>) = (without_next s)\<lparr>next_hop_writes := ws\<rparr>"
  "without_next (s\<lparr>runloop := cs\<rparr>) = (without_next s)\<lparr>runloop := cs\<rparr>"
  by (simp_all add: without_next_def)

lemma ReadReportError_without_next:
  "map_prod id without_next (ReadReportError e (without_next s)) = map_prod id without_next (ReadReportError e s)"
  by (cases "read_handler s") (simp_all add: ReadReportError_def record_call_def without_next_def)

lemma WriteReportError_without_next:
  "map_prod id without_next (WriteReportError e (without_next s)) = map_prod id without_next (WriteReportError e s)"
  by (cases "write_handler s") (simp_all add: WriteReportError_def record_call_def without_next_def)

lemma ReportError_without_next:
  "map_prod id without_next (ReportError e b (without_next s)) = map_prod id without_next (ReportError e b s)"
  by (cases "read_handler s"; cases "write_handler s"; cases b)
     (simp_all add: ReportError_def ReadReportError_def WriteReportError_def record_call_def without_next_def)

lemma TryReadNextHop_without_next: "without_next (TryReadNextHop (without_next s)) = without_next (TryReadNextHop s)"
  by (simp add: TryReadNextHop_def IsReading_def next_hop_Read_def without_next_def)

lemma TryWriteNextHop_without_next: "without_next (TryWriteNextHop T (without_next s)) = without_next (TryWriteNextHop T s)"
  by (cases "tunnel_ReadCipherTextData T (tunnel s)")
     (simp add: TryWriteNextHop_def IsWriting_def next_hop_Write_def without_next_def)

lemma TryRead_without_next: "without_next (TryRead T (without_next s)) = without_next (TryRead T s)"
  by (cases "tunnel_ReadPlainTextData T (tunnel s)")
     (simp add: TryRead_def TryReadNextHop_def IsReading_def next_hop_Read_def Post_def without_next_def Let_def)

lemma TryWrite_without_next: "without_next (TryWrite T (without_next s)) = without_next (TryWrite T s)"
  by (cases "tunnel_ReadCipherTextData T (tunnel s)")
     (simp add: TryWrite_def TryWriteNextHop_def IsWriting_def next_hop_Write_def Post_def without_next_def)

lemma TryWrite_without_next': "without_next (TryWrite T s) = without_next (TryWrite T (without_next s))"
  by (simp add: TryWrite_without_next)

lemma Process_without_next: "without_next (Process T (without_next s)) = without_next (Process T s)"
proof (cases "error_reported s \<or> is_error (pending_error s)")
  case True
  then show ?thesis
    using ReportError_without_next [of "pending_error s" True s]
    by (cases "ReportError (pending_error s) True s"; cases "ReportError (pending_error s) True (without_next s)";
        cases "fst (ReportError (pending_error s) True s)")
       (auto simp add: Process_def without_next_commute)
next
  case False
  have "without_next (TryWrite T (TryRead T (without_next s))) = without_next (TryWrite T (without_next (TryRead T (without_next s))))"
    by (rule TryWrite_without_next')
  also have "\<dots> = without_next (TryWrite T (without_next (TryRead T s)))"
    by (simp only: TryRead_without_next)
  also have "\<dots> = without_next (TryWrite T (TryRead T s))"
    by (rule TryWrite_without_next)
  finally show ?thesis using False by (simp add: Process_def)
qed


lemma Process_without_next': "without_next (Process T s) = without_next (Process T (without_next s))"
  by (simp add: Process_without_next)

lemma call_connect_handler_without_next:
  "map_sum id without_next (call_connect_handler e (without_next s)) = map_sum id without_next (call_connect_handler e s)"
  by (cases "connect_handler s") (simp_all add: call_connect_handler_def record_call_def without_next_def)

lemma HandShake_without_next: "map_sum id without_next (HandShake T (without_next s)) = map_sum id without_next (HandShake T s)"
proof (cases "tunnel_HandShake T (tunnel s)")
  case (Pair a t1)
  obtain b t2 where r: "tunnel_ReadCipherTextData T t1 = (b, t2)" by (cases "tunnel_ReadCipherTextData T t1")
  show ?thesis
  proof (cases a)
    case Success
    then show ?thesis using Pair r
      by (cases "connect_handler s"; cases "Connected (state_machine s)")
         (simp_all add: HandShake_def call_connect_handler_def record_call_def next_hop_Write_def without_next_def)
  next
    case WantIo
    then show ?thesis using Pair r
      by (simp add: HandShake_def next_hop_Write_def next_hop_Read_def without_next_def)
  next
    case ActionError
    then show ?thesis using Pair r
      by (cases "connect_handler s")
         (simp_all add: HandShake_def call_connect_handler_def record_call_def without_next_def)
  qed
qed

lemma report_without_next:
  "map_sum id without_next (case ReportError e b (without_next s) of
           (False, s1) \<Rightarrow> Inr (s1\<lparr>pending_error := e\<rparr>)
         | (True, s1) \<Rightarrow> Inr (s1\<lparr>error_reported := True\<rparr>))
   = map_sum id without_next (case ReportError e b s of
           (False, s1) \<Rightarrow> Inr (s1\<lparr>pending_error := e\<rparr>)
         | (True, s1) \<Rightarrow> Inr (s1\<lparr>error_reported := True\<rparr>))"
  using ReportError_without_next [of e b s]
  by (cases "ReportError e b s"; cases "ReportError e b (without_next s)"; cases "fst (ReportError e b s)")
     (auto simp add: without_next_commute)

lemma run_continuation_without_next:
  "map_sum id without_next (run_continuation T k buffer error (without_next s))
   = map_sum id without_next (run_continuation T k buffer error s)"
proof (cases k)
  case (ConnectCb c)
  then show ?thesis
    by (simp add: canceled_def call_connect_handler_without_next HandShake_without_next)
next
  case (HandShakeWriteCb c)
  then show ?thesis
    using call_connect_handler_without_next [of error "s\<lparr>state_machine := Errored (state_machine s)\<rparr>"]
    by (simp add: canceled_def HandShake_without_next without_next_commute)
next
  case (HandShakeReadCb c)
  then show ?thesis
    using call_connect_handler_without_next [of error "s\<lparr>state_machine := Errored (state_machine s)\<rparr>"]
      HandShake_without_next [of T "s\<lparr>tunnel := tunnel_WriteCipherTextData T buffer (tunnel s)\<rparr>"]
    by (simp add: canceled_def without_next_commute Let_def)
next
  case (NextReadCb c)
  then show ?thesis
    using Process_without_next [of T "s\<lparr>tunnel := tunnel_WriteCipherTextData T buffer (tunnel s)\<rparr>"]
      report_without_next [of error True s]
    by (cases "is_error error"; cases "c \<in> canceled_flags s") (auto simp add: canceled_def without_next_commute)
next
  case (NextWriteCb c)
  then show ?thesis
    using Process_without_next [of T s] report_without_next [of error False s]
    by (cases "is_error error"; cases "c \<in> canceled_flags s") (auto simp add: canceled_def without_next_commute)
qed

lemma run_closure_without_next:
  "map_sum id without_next (run_closure c (without_next s)) = map_sum id without_next (run_closure c s)"
proof (cases c)
  case (ReadDelivery b k)
  then show ?thesis
    by (cases "ReadEnd (state_machine s)"; cases "read_handler s")
       (simp_all add: canceled_def record_call_def without_next_def)
next
  case (WriteDelivery k)
  then show ?thesis
    by (cases "WriteEnd (state_machine s)"; cases "write_handler s")
       (simp_all add: canceled_def record_call_def without_next_def)
qed

lemma Read_without_next:
  "map_sum id without_next (drop_result (Read T b h (without_next s))) = map_sum id without_next (drop_result (Read T b h s))"
proof (cases "ReadBegin (state_machine s)")
  case None
  then show ?thesis by (simp add: Read_def Cancelable_new_def drop_result_def)
next
  case (Some st)
  have "without_next (s\<lparr>fresh := Suc (fresh s), read_cancelable := fresh s, read_handler := Some h, state_machine := st\<rparr>)
      = without_next ((without_next s)\<lparr>fresh := Suc (fresh s), read_cancelable := fresh s, read_handler := Some h, state_machine := st\<rparr>)"
    by (simp add: without_next_def)
  then show ?thesis using Some
    Process_without_next [of T "s\<lparr>fresh := Suc (fresh s), read_cancelable := fresh s, read_handler := Some h, state_machine := st\<rparr>"]
    Process_without_next [of T "(without_next s)\<lparr>fresh := Suc (fresh s), read_cancelable := fresh s, read_handler := Some h, state_machine := st\<rparr>"]
    by (simp add: Read_def Cancelable_new_def drop_result_def Let_def)
qed

lemma Write_without_next:
  "map_sum id without_next (drop_result (Write T b h (without_next s))) = map_sum id without_next (drop_result (Write T b h s))"
proof (cases "WriteBegin (state_machine s)")
  case None
  then show ?thesis by (simp add: Write_def Cancelable_new_def drop_result_def)
next
  case (Some st)
  let ?u = "\<lambda>s. s\<lparr>fresh := Suc (fresh s), write_cancelable := fresh s, write_handler := Some h,
      state_machine := st, tunnel := tunnel_WritePlainTextData T b (tunnel s)\<rparr>"
  have "without_next (?u s) = without_next (?u (without_next s))"
    by (simp add: without_next_def)
  then show ?thesis using Some Process_without_next [of T "?u s"] Process_without_next [of T "?u (without_next s)"]
    by (simp add: Write_def Cancelable_new_def drop_result_def Let_def)
qed

lemma Connect_without_next:
  "map_sum id without_next (drop_result (Connect T e h (without_next s))) = map_sum id without_next (drop_result (Connect T e h s))"
  by (cases "ConnectBegin (state_machine s)")
     (simp_all add: Connect_def Cancelable_new_def drop_result_def Let_def next_hop_Connect_def without_next_def)

lemma step_without_next:
  assumes "a \<noteq> Destroy"
  shows "map_sum id without_next (step T a (without_next s)) = map_sum id without_next (step T a s)"
proof (cases a)
  case (CallConnect e h)
  then show ?thesis by (simp add: Connect_without_next)
next
  case (CallRead b h)
  then show ?thesis by (simp add: Read_without_next)
next
  case (CallWrite b h)
  then show ?thesis by (simp add: Write_without_next)
next
  case (CallCloseWrite h)
  then show ?thesis by (simp add: CloseWrite_def)
next
  case (CancelToken c)
  then show ?thesis by (simp add: Cancel_def without_next_def)
next
  case Destroy
  then show ?thesis using assms by simp
next
  case (ConnectCompletes e)
  then show ?thesis
    using run_continuation_without_next [of T _ "[]" e "s\<lparr>next_hop_connects := tl (next_hop_connects s)\<rparr>"]
    by (cases "next_hop_connects s") (simp_all add: without_next_commute)
next
  case (ReadCompletes b e)
  then show ?thesis
    using run_continuation_without_next [of T _ b e "s\<lparr>next_hop_reads := tl (next_hop_reads s)\<rparr>"]
    by (cases "next_hop_reads s") (auto simp add: without_next_commute)
next
  case (WriteCompletes e)
  then show ?thesis
    using run_continuation_without_next [of T _ "[]" e "s\<lparr>next_hop_writes := tl (next_hop_writes s)\<rparr>"]
    by (cases "next_hop_writes s") (auto simp add: without_next_commute)
next
  case RunloopTurn
  then show ?thesis
    using run_closure_without_next [of _ "s\<lparr>runloop := tl (runloop s)\<rparr>"]
    by (cases "runloop s") (simp_all add: without_next_commute)
qed


text \<open>
  Claim C10. The lambda that \<^verbatim>\<open>TryReadNextHop\<close> hands to the next hop captures
  \<^verbatim>\<open>read_cancelable_\<close>, the one of \<^verbatim>\<open>TryWriteNextHop\<close> captures
  \<^verbatim>\<open>write_cancelable_\<close>; the cancelable the next hop returns is only stored in
  \<^verbatim>\<open>next_read_cancelable_\<close> (\<^verbatim>\<open>next_write_cancelable_\<close>), which nothing but
  the destructor reads, and the destructor cancels it with the other three. A completion
  that arrives once the captured user cancelable is canceled returns at once: the tunnel is
  not fed, no error is recorded, \<^verbatim>\<open>Process\<close> is not called, the state is unchanged.
\<close>

theorem next_hop_lambdas_guard_on_user_cancelables:
  "(\<not> IsReading s \<longrightarrow>
      next_hop_reads (TryReadNextHop s) = [(8192, NextReadCb (read_cancelable s))]
      \<and> next_read_cancelable (TryReadNextHop s) = fresh s)
   \<and> (\<not> IsWriting s \<and> \<not> tunnel_FinishWritingCipherData T (tunnel s) \<longrightarrow>
      next_hop_writes (TryWriteNextHop T s) =
        [(fst (tunnel_ReadCipherTextData T (tunnel s)), NextWriteCb (write_cancelable s))]
      \<and> next_write_cancelable (TryWriteNextHop T s) = fresh s)
   \<and> (canceled c s \<longrightarrow>
      run_continuation T (NextReadCb c) buffer error s = Inr s
      \<and> run_continuation T (NextWriteCb c) buffer error s = Inr s)
   \<and> (a \<noteq> Destroy \<longrightarrow>
      map_sum id without_next (step T a (without_next s)) = map_sum id without_next (step T a s))
   \<and> canceled_flags (TlsDataFlow_delete s) =
       canceled_flags s \<union> {read_cancelable s, write_cancelable s, connect_cancelable s,
         next_read_cancelable s, next_write_cancelable s}"
proof (intro conjI impI)
  assume "\<not> IsReading s"
  then show "next_hop_reads (TryReadNextHop s) = [(8192, NextReadCb (read_cancelable s))]"
    and "next_read_cancelable (TryReadNextHop s) = fresh s"
    by (simp_all add: TryReadNextHop_def next_hop_Read_def IsReading_def)
next
  assume "\<not> IsWriting s \<and> \<not> tunnel_FinishWritingCipherData T (tunnel s)"
  then show "next_hop_writes (TryWriteNextHop T s) =
        [(fst (tunnel_ReadCipherTextData T (tunnel s)), NextWriteCb (write_cancelable s))]"
    and "next_write_cancelable (TryWriteNextHop T s) = fresh s"
    by (simp_all add: TryWriteNextHop_def next_hop_Write_def IsWriting_def split: prod.splits)
next
  assume "canceled c s"
  then show "run_continuation T (NextReadCb c) buffer error s = Inr s"
    and "run_continuation T (NextWriteCb c) buffer error s = Inr s"
    by simp_all
next
  assume "a \<noteq> Destroy"
  then show "map_sum id without_next (step T a (without_next s)) = map_sum id without_next (step T a s)"
    by (rule step_without_next)
next
  show "canceled_flags (TlsDataFlow_delete s) =
       canceled_flags s \<union> {read_cancelable s, write_cancelable s, connect_cancelable s,
         next_read_cancelable s, next_write_cancelable s}"
    by (auto simp add: TlsDataFlow_delete_def Cancel_def)
qed

theorem next_hop_lambdas_guard_on_user_cancelables_witness:
  "\<not> IsReading (Cancel 0 steady)
   \<and> next_hop_reads (TryReadNextHop (Cancel 0 steady)) = [(8192, NextReadCb 0)]
   \<and> next_read_cancelable (TryReadNextHop (Cancel 0 steady)) = 5
   \<and> \<not> IsWriting (Cancel 0 steady)
   \<and> \<not> tunnel_FinishWritingCipherData scripted (tunnel (Cancel 0 steady))
   \<and> next_hop_writes (TryWriteNextHop scripted (Cancel 0 steady)) = [([105], NextWriteCb 1)]
   \<and> next_write_cancelable (TryWriteNextHop scripted (Cancel 0 steady)) = 5
   \<and> canceled 0 (Cancel 0 steady)
   \<and> run_continuation scripted (NextReadCb 0) [106] NoError (Cancel 0 steady) = Inr (Cancel 0 steady)
   \<and> run_continuation scripted (NextWriteCb 0) [] (InnerError 1) (Cancel 0 steady) = Inr (Cancel 0 steady)
   \<and> CallRead [] 1 \<noteq> Destroy
   \<and> map_sum id without_next (step scripted (CallRead [] 1) (without_next (Cancel 0 steady)))
       = map_sum id without_next (step scripted (CallRead [] 1) (Cancel 0 steady))
   \<and> canceled_flags (TlsDataFlow_delete (Cancel 0 steady)) = {0, 1, 2, 3, 4}"
  using next_hop_lambdas_guard_on_user_cancelables
    [of "Cancel 0 steady" scripted 0 "[106]" NoError "CallRead [] 1"]
    next_hop_lambdas_guard_on_user_cancelables
    [of "Cancel 0 steady" scripted 0 "[]" "InnerError 1" "CallRead [] 1"]
  by (simp add: flow_defs scenario_defs insert_commute)

section \<open>Error reporting policy\<close>

lemma ReportError_read_first:
  "ReportError error True s =
     (case read_handler s of
        Some h \<Rightarrow> (True, s\<lparr>calls := calls s @ [ReadHandlerCalled h [] error (Some h)], read_handler := None\<rparr>)
      | None \<Rightarrow>
          (case write_handler s of
             Some h \<Rightarrow> (True, s\<lparr>calls := calls s @ [WriteHandlerCalled h error (Some h)], write_handler := None\<rparr>)
           | None \<Rightarrow> (False, s)))"
  by (cases "read_handler s"; cases "write_handler s")
     (simp_all add: ReportError_def ReadReportError_def WriteReportError_def record_call_def)

lemma ReportError_write_first:
  "ReportError error False s =
     (case write_handler s of
        Some h \<Rightarrow> (True, s\<lparr>calls := calls s @ [WriteHandlerCalled h error (Some h)], write_handler := None\<rparr>)
      | None \<Rightarrow>
          (case read_handler s of
             Some h \<Rightarrow> (True, s\<lparr>calls := calls s @ [ReadHandlerCalled h [] error (Some h)], read_handler := None\<rparr>)
           | None \<Rightarrow> (False, s)))"
  by (cases "read_handler s"; cases "write_handler s")
     (simp_all add: ReportError_def ReadReportError_def WriteReportError_def record_call_def)

text \<open>
  Claim C2. \<^verbatim>\<open>ReportError(err, try_read_first)\<close> tries the preferred side first: a
  registered read handler is called with an empty buffer and the error, a registered write
  handler with the error; the slot is emptied and the result is \<open>True\<close> (delivered). With
  no handler on the preferred side the other side is tried in the same way, and with no
  handler at all the result is \<open>False\<close> and nothing changes. The lambdas of
  \<^verbatim>\<open>TryReadNextHop\<close> and \<^verbatim>\<open>TryWriteNextHop\<close> then store the error in
  \<^verbatim>\<open>pending_error_\<close>, and the next \<^verbatim>\<open>Read\<close> or \<^verbatim>\<open>Write\<close> of the user has
  \<^verbatim>\<open>Process\<close> hand it to the handler just registered and set
  \<^verbatim>\<open>error_reported_\<close>.
\<close>

theorem ReportError_policy:
  "ReportError error True s =
     (case read_handler s of
        Some h \<Rightarrow> (True, s\<lparr>calls := calls s @ [ReadHandlerCalled h [] error (Some h)], read_handler := None\<rparr>)
      | None \<Rightarrow>
          (case write_handler s of
             Some h \<Rightarrow> (True, s\<lparr>calls := calls s @ [WriteHandlerCalled h error (Some h)], write_handler := None\<rparr>)
           | None \<Rightarrow> (False, s)))
   \<and> ReportError error False s =
     (case write_handler s of
        Some h \<Rightarrow> (True, s\<lparr>calls := calls s @ [WriteHandlerCalled h error (Some h)], write_handler := None\<rparr>)
      | None \<Rightarrow>
          (case read_handler s of
             Some h \<Rightarrow> (True, s\<lparr>calls := calls s @ [ReadHandlerCalled h [] error (Some h)], read_handler := None\<rparr>)
           | None \<Rightarrow> (False, s)))
   \<and> (read_handler s = None \<and> write_handler s = None \<and> is_error error \<and> \<not> canceled c s \<longrightarrow>
        run_continuation T (NextReadCb c) buffer error s = Inr (s\<lparr>pending_error := error\<rparr>)
        \<and> run_continuation T (NextWriteCb c) buffer error s = Inr (s\<lparr>pending_error := error\<rparr>))
   \<and> (read_handler s = None \<and> write_handler s = None \<and> is_error (pending_error s)
        \<and> \<not> error_reported s \<longrightarrow>
        (ReadBegin (state_machine s) = Some st \<longrightarrow>
           Read T buffer handler s =
             Inr (fresh s,
                  s\<lparr>fresh := Suc (fresh s), read_cancelable := fresh s, state_machine := st,
                    calls := calls s @ [ReadHandlerCalled handler [] (pending_error s) (Some handler)],
                    read_handler := None, error_reported := True\<rparr>))
        \<and> (WriteBegin (state_machine s) = Some st \<longrightarrow>
           Write T buffer handler s =
             Inr (fresh s,
                  s\<lparr>fresh := Suc (fresh s), write_cancelable := fresh s, state_machine := st,
                    tunnel := tunnel_WritePlainTextData T buffer (tunnel s),
                    calls := calls s @ [WriteHandlerCalled handler (pending_error s) (Some handler)],
                    write_handler := None, error_reported := True\<rparr>)))"
proof (intro conjI impI)
  show "ReportError error True s =
     (case read_handler s of
        Some h \<Rightarrow> (True, s\<lparr>calls := calls s @ [ReadHandlerCalled h [] error (Some h)], read_handler := None\<rparr>)
      | None \<Rightarrow>
          (case write_handler s of
             Some h \<Rightarrow> (True, s\<lparr>calls := calls s @ [WriteHandlerCalled h error (Some h)], write_handler := None\<rparr>)
           | None \<Rightarrow> (False, s)))"
    by (rule ReportError_read_first)
next
  show "ReportError error False s =
     (case write_handler s of
        Some h \<Rightarrow> (True, s\<lparr>calls := calls s @ [WriteHandlerCalled h error (Some h)], write_handler := None\<rparr>)
      | None \<Rightarrow>
          (case read_handler s of
             Some h \<Rightarrow> (True, s\<lparr>calls := calls s @ [ReadHandlerCalled h [] error (Some h)], read_handler := None\<rparr>)
           | None \<Rightarrow> (False, s)))"
    by (rule ReportError_write_first)
next
  assume "read_handler s = None \<and> write_handler s = None \<and> is_error error \<and> \<not> canceled c s"
  then show "run_continuation T (NextReadCb c) buffer error s = Inr (s\<lparr>pending_error := error\<rparr>)"
    and "run_continuation T (NextWriteCb c) buffer error s = Inr (s\<lparr>pending_error := error\<rparr>)"
    by (simp_all add: ReportError_read_first ReportError_write_first)
next
  assume h: "read_handler s = None \<and> write_handler s = None \<and> is_error (pending_error s)
        \<and> \<not> error_reported s"
    and st: "ReadBegin (state_machine s) = Some st"
  then show "Read T buffer handler s =
             Inr (fresh s,
                  s\<lparr>fresh := Suc (fresh s), read_cancelable := fresh s, state_machine := st,
                    calls := calls s @ [ReadHandlerCalled handler [] (pending_error s) (Some handler)],
                    read_handler := None, error_reported := True\<rparr>)"
    by (simp add: Read_def Cancelable_new_def Process_def ReportError_read_first)
next
  assume h: "read_handler s = None \<and> write_handler s = None \<and> is_error (pending_error s)
        \<and> \<not> error_reported s"
    and st: "WriteBegin (state_machine s) = Some st"
  then show "Write T buffer handler s =
             Inr (fresh s,
                  s\<lparr>fresh := Suc (fresh s), write_cancelable := fresh s, state_machine := st,
                    tunnel := tunnel_WritePlainTextData T buffer (tunnel s),
                    calls := calls s @ [WriteHandlerCalled handler (pending_error s) (Some handler)],
                    write_handler := None, error_reported := True\<rparr>)"
    by (simp add: Write_def Cancelable_new_def Process_def ReportError_read_first)
qed

theorem ReportError_policy_witness:
  "ReportError (InnerError 1) True (steady\<lparr>read_handler := Some 1, write_handler := Some 2\<rparr>) =
     (True, steady\<lparr>read_handler := None, write_handler := Some 2,
                   calls := [ReadHandlerCalled 1 [] (InnerError 1) (Some 1)]\<rparr>)
   \<and> ReportError (InnerError 1) False (steady\<lparr>read_handler := Some 1, write_handler := Some 2\<rparr>) =
     (True, steady\<lparr>read_handler := Some 1, write_handler := None,
                   calls := [WriteHandlerCalled 2 (InnerError 1) (Some 2)]\<rparr>)
   \<and> ReportError (InnerError 1) False (steady\<lparr>read_handler := Some 1\<rparr>) =
     (True, steady\<lparr>read_handler := None,
                   calls := [ReadHandlerCalled 1 [] (InnerError 1) (Some 1)]\<rparr>)
   \<and> ReportError (InnerError 1) True steady = (False, steady)
   \<and> read_handler steady = None \<and> write_handler steady = None \<and> is_error (InnerError 1)
   \<and> \<not> canceled 0 steady
   \<and> run_continuation scripted (NextReadCb 0) [] (InnerError 1) steady
       = Inr (steady\<lparr>pending_error := InnerError 1\<rparr>)
   \<and> run_continuation scripted (NextWriteCb 0) [] (InnerError 1) steady
       = Inr (steady\<lparr>pending_error := InnerError 1\<rparr>)
   \<and> is_error (pending_error (steady\<lparr>pending_error := InnerError 1\<rparr>))
   \<and> \<not> error_reported (steady\<lparr>pending_error := InnerError 1\<rparr>)
   \<and> ReadBegin (state_machine (steady\<lparr>pending_error := InnerError 1\<rparr>)) = Some Reading
   \<and> map_sum id (\<lambda>r. (calls (snd r), error_reported (snd r), read_handler (snd r)))
        (Read scripted [] 8 (steady\<lparr>pending_error := InnerError 1\<rparr>))
       = Inr ([ReadHandlerCalled 8 [] (InnerError 1) (Some 8)], True, None)
   \<and> WriteBegin (state_machine (steady\<lparr>pending_error := InnerError 1\<rparr>)) = Some Writing
   \<and> map_sum id (\<lambda>r. (calls (snd r), error_reported (snd r), write_handler (snd r)))
        (Write scripted [104] 9 (steady\<lparr>pending_error := InnerError 1\<rparr>))
       = Inr ([WriteHandlerCalled 9 (InnerError 1) (Some 9)], True, None)"
  using ReportError_policy [of "InnerError 1" "steady\<lparr>read_handler := Some 1, write_handler := Some 2\<rparr>"]
    ReportError_policy [of "InnerError 1" "steady\<lparr>read_handler := Some 1\<rparr>"]
    ReportError_policy [of "InnerError 1" steady 0 scripted "[]"]
    ReportError_policy [of _ "steady\<lparr>pending_error := InnerError 1\<rparr>" _ scripted "[]" Reading 8]
    ReportError_policy [of _ "steady\<lparr>pending_error := InnerError 1\<rparr>" _ scripted "[104]" Writing 9]
  by (simp add: flow_defs scenario_defs)

section \<open>TryRead and the next hop\<close>



text \<open>
  The statement of claim C6 fails at \<open>waiting_reader\<close>: a read handler is registered, the
  tunnel has no plaintext and does not need ciphertext input, and \<^verbatim>\<open>TryRead\<close> issues
  a read on the next hop all the same.
\<close>

theorem TryRead_inner_read_counterexample:
  "read_handler waiting_reader = Some 1
   \<and> \<not> tunnel_HasPlainTextDataToRead scripted (tunnel waiting_reader)
   \<and> \<not> tunnel_NeedCipherInput scripted (tunnel waiting_reader)
   \<and> next_hop_reads waiting_reader = []
   \<and> next_hop_reads (TryRead scripted waiting_reader) = [(8192, NextReadCb 0)]"
  by (simp add: flow_defs scenario_defs)

text \<open>
  Claim C6, amended. In \<^verbatim>\<open>TryRead\<close>, with a read handler registered and no plaintext
  in the tunnel, \<^verbatim>\<open>TryReadNextHop\<close> is called without asking the tunnel: a read is
  issued on the next hop whenever none is in flight there, whether or not the tunnel needs
  ciphertext input. With no read handler registered, a read is issued on the next hop
  exactly when the tunnel needs ciphertext input and none is in flight.
\<close>

theorem TryRead_inner_read:
  "(read_handler s \<noteq> None \<and> \<not> tunnel_HasPlainTextDataToRead T (tunnel s) \<longrightarrow>
      TryRead T s = TryReadNextHop s
      \<and> next_hop_reads (TryRead T s) =
          (if IsReading s then next_hop_reads s
           else next_hop_reads s @ [(8192, NextReadCb (read_cancelable s))]))
   \<and> (read_handler s = None \<longrightarrow>
      next_hop_reads (TryRead T s) =
          (if tunnel_NeedCipherInput T (tunnel s) \<and> \<not> IsReading s
           then next_hop_reads s @ [(8192, NextReadCb (read_cancelable s))]
           else next_hop_reads s))"
  by (simp add: TryRead_def TryReadNextHop_def next_hop_Read_def)

theorem TryRead_inner_read_witness:
  "read_handler waiting_reader \<noteq> None
   \<and> \<not> tunnel_HasPlainTextDataToRead scripted (tunnel waiting_reader)
   \<and> TryRead scripted waiting_reader = TryReadNextHop waiting_reader
   \<and> next_hop_reads (TryRead scripted waiting_reader) = [(8192, NextReadCb 0)]
   \<and> read_handler steady = None
   \<and> tunnel_NeedCipherInput scripted (tunnel steady) \<and> \<not> IsReading steady
   \<and> next_hop_reads (TryRead scripted steady) = [(8192, NextReadCb 0)]
   \<and> read_handler (waiting_reader\<lparr>read_handler := None\<rparr>) = None
   \<and> next_hop_reads (TryRead scripted (waiting_reader\<lparr>read_handler := None\<rparr>)) = []"
  using TryRead_inner_read [of waiting_reader scripted] TryRead_inner_read [of steady scripted]
    TryRead_inner_read [of "waiting_reader\<lparr>read_handler := None\<rparr>" scripted]
  by (simp add: flow_defs scenario_defs)

section \<open>What the pump leaves alone\<close>

lemma calls_TryReadNextHop [simp]: "calls (TryReadNextHop s) = calls s"
  by (simp add: TryReadNextHop_def next_hop_Read_def)

lemma calls_TryWriteNextHop [simp]: "calls (TryWriteNextHop T s) = calls s"
  by (simp add: TryWriteNextHop_def next_hop_Write_def split: prod.splits)

lemma calls_TryRead [simp]: "calls (TryRead T s) = calls s"
  by (simp add: TryRead_def Post_def Let_def split: prod.splits)

lemma calls_TryWrite [simp]: "calls (TryWrite T s) = calls s"
  by (simp add: TryWrite_def Post_def)

lemma read_handler_TryReadNextHop [simp]: "read_handler (TryReadNextHop s) = read_handler s"
  by (simp add: TryReadNextHop_def next_hop_Read_def)

lemma read_handler_TryWriteNextHop [simp]: "read_handler (TryWriteNextHop T s) = read_handler s"
  by (simp add: TryWriteNextHop_def next_hop_Write_def split: prod.splits)

lemma read_handler_TryRead [simp]: "read_handler (TryRead T s) = read_handler s"
  by (simp add: TryRead_def Post_def Let_def split: prod.splits)

lemma read_handler_TryWrite [simp]: "read_handler (TryWrite T s) = read_handler s"
  by (simp add: TryWrite_def Post_def)

lemma read_cancelable_TryReadNextHop [simp]: "read_cancelable (TryReadNextHop s) = read_cancelable s"
  by (simp add: TryReadNextHop_def next_hop_Read_def)

lemma read_cancelable_TryWriteNextHop [simp]: "read_cancelable (TryWriteNextHop T s) = read_cancelable s"
  by (simp add: TryWriteNextHop_def next_hop_Write_def split: prod.splits)

lemma read_cancelable_TryRead [simp]: "read_cancelable (TryRead T s) = read_cancelable s"
  by (simp add: TryRead_def Post_def Let_def split: prod.splits)

lemma read_cancelable_TryWrite [simp]: "read_cancelable (TryWrite T s) = read_cancelable s"
  by (simp add: TryWrite_def Post_def)

lemma runloop_TryReadNextHop [simp]: "runloop (TryReadNextHop s) = runloop s"
  by (simp add: TryReadNextHop_def next_hop_Read_def)

lemma runloop_TryWriteNextHop [simp]: "runloop (TryWriteNextHop T s) = runloop s"
  by (simp add: TryWriteNextHop_def next_hop_Write_def split: prod.splits)

lemma runloop_TryWrite: "set (runloop s) \<subseteq> set (runloop (TryWrite T s))"
  by (auto simp add: TryWrite_def Post_def)

lemma runloop_TryRead:
  "read_handler s \<noteq> None \<Longrightarrow> tunnel_HasPlainTextDataToRead T (tunnel s) \<Longrightarrow>
   runloop (TryRead T s) =
     runloop s @ [ReadDelivery (fst (tunnel_ReadPlainTextData T (tunnel s))) (read_cancelable s)]"
  by (simp add: TryRead_def Post_def Let_def split: prod.splits)

section \<open>Read and the runloop\<close>

text \<open>
  The statement of claim C7 fails after \<open>pending_run\<close>: plaintext is buffered in the
  tunnel and an error is pending, and \<^verbatim>\<open>Read\<close> calls the read handler inline, with
  the pending error; nothing is posted.
\<close>

theorem Read_inline_counterexample:
  "map_sum id (\<lambda>s. (tunnel_HasPlainTextDataToRead scripted (tunnel s), pending_error s, calls s))
      (run scripted pending_run (TlsDataFlow_new (script [] True)))
     = Inr (True, InnerError 1,
            [ConnectHandlerCalled 7 NoError (Some 7), WriteHandlerCalled 2 NoError None])
   \<and> map_sum id (\<lambda>s. (calls s, runloop s))
      (run scripted (pending_run @ [CallRead [] 1]) (TlsDataFlow_new (script [] True)))
     = Inr ([ConnectHandlerCalled 7 NoError (Some 7), WriteHandlerCalled 2 NoError None,
             ReadHandlerCalled 1 [] (InnerError 1) (Some 1)], [])"
  by (simp add: flow_defs scenario_defs pending_run_def)

text \<open>
  Claim C7, amended. If \<^verbatim>\<open>Read\<close> is called while no error is pending, no handler
  is called inside the call: the handler stays registered, and when plaintext is buffered
  in the tunnel its delivery is a closure in the queue of the runloop, guarded by the
  cancelable that \<^verbatim>\<open>Read\<close> returns. (With an error pending, \<^verbatim>\<open>Read\<close> hands
  that error to the handler inline.)
\<close>

theorem Read_defers_delivery:
  assumes "\<not> is_error (pending_error s)"
    and "Read T buffer handler s = Inr (c, s1)"
  shows "calls s1 = calls s \<and> read_handler s1 = Some handler \<and> read_cancelable s1 = c
     \<and> (tunnel_HasPlainTextDataToRead T (tunnel s) \<longrightarrow>
          ReadDelivery (fst (tunnel_ReadPlainTextData T (tunnel s))) c \<in> set (runloop s1))"
proof -
  from assms(2) have er: "\<not> error_reported s"
    by (auto simp add: Read_def split: if_splits)
  from assms(2) er obtain st where st: "ReadBegin (state_machine s) = Some st"
    by (cases "ReadBegin (state_machine s)") (auto simp add: Read_def Cancelable_new_def)
  define s0 where "s0 = s\<lparr>fresh := Suc (fresh s), read_cancelable := fresh s,
      read_handler := Some handler, state_machine := st\<rparr>"
  have s1: "s1 = TryWrite T (TryRead T s0)" and c: "c = read_cancelable s1"
    using assms er st by (auto simp add: Read_def Cancelable_new_def Process_def s0_def Let_def)
  have r: "tunnel_HasPlainTextDataToRead T (tunnel s) \<Longrightarrow>
      runloop (TryRead T s0) =
        runloop s0 @ [ReadDelivery (fst (tunnel_ReadPlainTextData T (tunnel s))) (fresh s)]"
    using runloop_TryRead [of s0 T] by (simp add: s0_def)
  have "calls s1 = calls s" "read_handler s1 = Some handler" "read_cancelable s1 = fresh s"
    by (simp_all add: s1 s0_def)
  moreover have "tunnel_HasPlainTextDataToRead T (tunnel s) \<Longrightarrow>
      ReadDelivery (fst (tunnel_ReadPlainTextData T (tunnel s))) (fresh s) \<in> set (runloop s1)"
    using r runloop_TryWrite [of "TryRead T s0" T] by (auto simp add: s1)
  ultimately show ?thesis using c by simp
qed

theorem Read_defers_delivery_witness:
  "\<not> is_error (pending_error (steady\<lparr>tunnel := (tunnel steady)\<lparr>plain_out := [[104]]\<rparr>\<rparr>))
   \<and> map_sum id (\<lambda>r. (fst r, calls (snd r), read_handler (snd r), runloop (snd r)))
        (Read scripted [] 1 (steady\<lparr>tunnel := (tunnel steady)\<lparr>plain_out := [[104]]\<rparr>\<rparr>))
       = Inr (5, [], Some 1, [ReadDelivery [104] 5])
   \<and> tunnel_HasPlainTextDataToRead scripted (tunnel (steady\<lparr>tunnel := (tunnel steady)\<lparr>plain_out := [[104]]\<rparr>\<rparr>))"
proof -
  let ?s = "steady\<lparr>tunnel := (tunnel steady)\<lparr>plain_out := [[104]]\<rparr>\<rparr>"
  obtain s1 where r: "Read scripted [] 1 ?s = Inr (5, s1)"
    by (simp add: flow_defs scenario_defs)
  have p: "\<not> is_error (pending_error ?s)"
    by (simp add: flow_defs scenario_defs)
  from Read_defers_delivery [OF p r] p r show ?thesis
    by (auto simp add: flow_defs scenario_defs)
qed

section \<open>The handshake driver\<close>

text \<open>
  One cycle of the driver as the source runs it, by the answer of the tunnel and the
  ciphertext it holds afterwards. \<^verbatim>\<open>Success\<close> with ciphertext: one write on the next
  hop, whose completion re-enters the driver. \<^verbatim>\<open>Success\<close> without ciphertext: the
  state becomes \<open>Established\<close>, the connect handler is called with no error, then its
  slot is emptied. \<^verbatim>\<open>WantIo\<close> with ciphertext: one write, as before.
  \<^verbatim>\<open>WantIo\<close> without ciphertext: one read of up to 8192 bytes on the next hop, whose
  completion feeds the bytes to the tunnel, checks \<^verbatim>\<open>NE_TLS_TUNNEL_CHECK_ERROR\<close> and
  re-enters the driver. \<^verbatim>\<open>Error\<close>: the state becomes \<open>ErroredState\<close> and the connect
  handler is called with the general error.
\<close>

lemma HandShake_cycle:
  assumes "tunnel_HandShake T (tunnel s) = (a, t1)"
    and "tunnel_ReadCipherTextData T t1 = (b, t2)"
  shows "(a = Success \<and> b \<noteq> [] \<longrightarrow>
        HandShake T s =
          Inr (s\<lparr>tunnel := t2, fresh := Suc (fresh s), write_cancelable := fresh s,
                 next_hop_writes := next_hop_writes s @ [(b, HandShakeWriteCb (connect_cancelable s))]\<rparr>))
    \<and> (a = Success \<and> b = [] \<and> state_machine s = Connecting \<and> connect_handler s = Some h \<longrightarrow>
        HandShake T s =
          Inr (s\<lparr>tunnel := t2, state_machine := Established,
                 calls := calls s @ [ConnectHandlerCalled h NoError (Some h)],
                 connect_handler := None\<rparr>))
    \<and> (a = WantIo \<and> b \<noteq> [] \<longrightarrow>
        HandShake T s =
          Inr (s\<lparr>tunnel := t2, fresh := Suc (fresh s), write_cancelable := fresh s,
                 next_hop_writes := next_hop_writes s @ [(b, HandShakeWriteCb (connect_cancelable s))]\<rparr>))
    \<and> (a = WantIo \<and> b = [] \<longrightarrow>
        HandShake T s =
          Inr (s\<lparr>tunnel := t2, fresh := Suc (fresh s), read_cancelable := fresh s,
                 next_hop_reads := next_hop_reads s @ [(8192, HandShakeReadCb (connect_cancelable s))]\<rparr>))
    \<and> (a = ActionError \<and> connect_handler s = Some h \<longrightarrow>
        HandShake T s =
          Inr (s\<lparr>tunnel := t1, state_machine := ErroredState,
                 calls := calls s @ [ConnectHandlerCalled h GeneralError (Some h)]\<rparr>))
    \<and> (\<not> canceled c s \<and> \<not> is_error error \<longrightarrow>
        run_continuation T (HandShakeWriteCb c) buffer error s = HandShake T s
        \<and> run_continuation T (HandShakeReadCb c) buffer error s =
            (if tunnel_Errored T (tunnel_WriteCipherTextData T buffer (tunnel s))
             then Inl AssertionFailed
             else HandShake T (s\<lparr>tunnel := tunnel_WriteCipherTextData T buffer (tunnel s)\<rparr>)))"
  using assms
  by (cases a)
     (simp_all add: HandShake_def next_hop_Write_def next_hop_Read_def call_connect_handler_def
        record_call_def Errored_def Let_def)


lemma HandShake_cycle_scripted:
  "map_sum id (\<lambda>s. (state_machine s, next_hop_writes s, calls s))
      (HandShake scripted (connecting [(Success, [67])]))
     = Inr (Connecting, [([67], HandShakeWriteCb 5)], [])
   \<and> map_sum id (\<lambda>s. (state_machine s, next_hop_writes s, calls s, connect_handler s))
      (HandShake scripted (connecting []))
     = Inr (Established, [], [ConnectHandlerCalled 7 NoError (Some 7)], None)
   \<and> map_sum id (\<lambda>s. (state_machine s, next_hop_writes s, next_hop_reads s, calls s))
      (HandShake scripted (connecting [(WantIo, [67, 72])]))
     = Inr (Connecting, [([67, 72], HandShakeWriteCb 5)], [], [])
   \<and> map_sum id (\<lambda>s. (state_machine s, next_hop_writes s, next_hop_reads s, calls s))
      (HandShake scripted (connecting [(WantIo, [])]))
     = Inr (Connecting, [], [(8192, HandShakeReadCb 5)], [])
   \<and> map_sum id (\<lambda>s. (state_machine s, calls s, connect_handler s))
      (HandShake scripted (connecting [(ActionError, [])]))
     = Inr (ErroredState, [ConnectHandlerCalled 7 GeneralError (Some 7)], Some 7)
   \<and> \<not> canceled 5 (connecting []) \<and> \<not> is_error NoError
   \<and> run_continuation scripted (HandShakeWriteCb 5) [] NoError (connecting [])
       = HandShake scripted (connecting [])
   \<and> run_continuation scripted (HandShakeReadCb 5) [0] NoError (connecting []) = Inl AssertionFailed
   \<and> run_continuation scripted (HandShakeReadCb 5) [3] NoError (connecting [])
       = HandShake scripted ((connecting [])\<lparr>tunnel := (tunnel (connecting []))\<lparr>plain_out := [[2]]\<rparr>\<rparr>)"
  using
    HandShake_cycle [OF prod.collapse [symmetric] prod.collapse [symmetric],
      where T = scripted and s = "connecting [(Success, [67])]" and h = 7]
    HandShake_cycle [OF prod.collapse [symmetric] prod.collapse [symmetric],
      where T = scripted and s = "connecting []" and h = 7 and c = 5 and error = NoError
        and buffer = "[]"]
    HandShake_cycle [OF prod.collapse [symmetric] prod.collapse [symmetric],
      where T = scripted and s = "connecting []" and h = 7 and c = 5 and error = NoError
        and buffer = "[0]"]
    HandShake_cycle [OF prod.collapse [symmetric] prod.collapse [symmetric],
      where T = scripted and s = "connecting []" and h = 7 and c = 5 and error = NoError
        and buffer = "[3]"]
    HandShake_cycle [OF prod.collapse [symmetric] prod.collapse [symmetric],
      where T = scripted and s = "connecting [(WantIo, [67, 72])]" and h = 7]
    HandShake_cycle [OF prod.collapse [symmetric] prod.collapse [symmetric],
      where T = scripted and s = "connecting [(WantIo, [])]" and h = 7]
    HandShake_cycle [OF prod.collapse [symmetric] prod.collapse [symmetric],
      where T = scripted and s = "connecting [(ActionError, [])]" and h = 7]
  by (simp add: flow_defs scenario_defs connecting_def)

text \<open>
  Claim C5 (the code departs from it). The driver follows the cycle of the claim up to
  one point. In \<open>poisoned_handshake\<close> the flow waits for the read it issued on
  \<^verbatim>\<open>WantIo\<close>, and the read completes, without error, with bytes that put the tunnel
  into its error state. The claim has the handshake end with the general error; the lambda
  stops at \<^verbatim>\<open>assert(!tunnel_.Errored())\<close> and calls no handler. The paths next to
  it do what the claim says: the driver, had it been re-entered on the fed tunnel, gets
  \<^verbatim>\<open>Error\<close> from the tunnel, marks the state and calls the connect handler with the
  general error; and the same lambda, when the read itself fails, marks the state and
  calls the connect handler with that error.
\<close>

theorem tunnel_error_after_feeding:
  "map_sum id (\<lambda>s. (next_hop_reads s, calls s,
        tunnel_Errored scripted (tunnel_WriteCipherTextData scripted [0] (tunnel s))))
      (run scripted (butlast poisoned_handshake)
         (TlsDataFlow_new (script [(WantIo, []), (ActionError, [])] False)))
     = Inr ([(8192, HandShakeReadCb 5)], [], True)
   \<and> run scripted poisoned_handshake
         (TlsDataFlow_new (script [(WantIo, []), (ActionError, [])] False))
     = Inl AssertionFailed
   \<and> map_sum id
        (\<lambda>s. map_sum id (\<lambda>s1. (state_machine s1, calls s1))
           (HandShake scripted
              (s\<lparr>next_hop_reads := [],
                 tunnel := tunnel_WriteCipherTextData scripted [0] (tunnel s)\<rparr>)))
        (run scripted (butlast poisoned_handshake)
           (TlsDataFlow_new (script [(WantIo, []), (ActionError, [])] False)))
     = Inr (Inr (ErroredState, [ConnectHandlerCalled 7 GeneralError (Some 7)]))
   \<and> map_sum id (\<lambda>s. (state_machine s, calls s))
        (run scripted (butlast poisoned_handshake @ [ReadCompletes [] (InnerError 1)])
           (TlsDataFlow_new (script [(WantIo, []), (ActionError, [])] False)))
     = Inr (ErroredState, [ConnectHandlerCalled 7 (InnerError 1) (Some 7)])"
  by (simp add: flow_defs scenario_defs poisoned_handshake_def)

section \<open>Handler slots at the moment of a call\<close>

text \<open>
  Claim C4 (the code departs from it). In the first five steps of \<open>two_errors\<close> the read
  of the next hop fails while a read handler is registered: \<^verbatim>\<open>ReadReportError\<close> calls
  the handler while \<^verbatim>\<open>read_handler_\<close> still holds it (last component of the event)
  and empties the slot afterwards; the connect handler of the same run is called on success
  while \<^verbatim>\<open>connect_handler_\<close> still holds it. When the connect of the next hop fails,
  the connect handler is called and its slot is never emptied.
\<close>

theorem error_delivery_holds_slot:
  "map_sum id calls (run scripted (take 5 two_errors) (TlsDataFlow_new (script [] False)))
     = Inr [ConnectHandlerCalled 7 NoError (Some 7),
            ReadHandlerCalled 1 [] (InnerError 1) (Some 1)]
   \<and> map_sum id (\<lambda>s. (calls s, connect_handler s))
        (run scripted [CallConnect example_endpoint 7, ConnectCompletes (InnerError 3)]
           (TlsDataFlow_new (script [] False)))
     = Inr ([ConnectHandlerCalled 7 (InnerError 3) (Some 7)], Some 7)"
  by (simp add: flow_defs scenario_defs two_errors_def)

section \<open>Errors after the first\<close>

text \<open>
  Claim C3 (the code departs from it). In \<open>two_errors\<close> a read and a write are armed and
  both operations of the next hop fail. The first failure reaches the read handler and sets
  \<^verbatim>\<open>error_reported_\<close>; the second failure then reaches the write handler: a second
  error is surfaced, by a handler called after \<^verbatim>\<open>error_reported_\<close> was set.
  In \<open>late_read\<close> the delivery of plaintext is already posted when the failure of a write
  reaches the write handler and sets \<^verbatim>\<open>error_reported_\<close>; the posted closure then
  calls the read handler.
\<close>

theorem second_error_after_error_reported:
  "map_sum id (\<lambda>s. (error_reported s, calls s))
      (run scripted (take 5 two_errors) (TlsDataFlow_new (script [] False)))
     = Inr (True, [ConnectHandlerCalled 7 NoError (Some 7),
                   ReadHandlerCalled 1 [] (InnerError 1) (Some 1)])
   \<and> map_sum id (\<lambda>s. (error_reported s, calls s))
      (run scripted two_errors (TlsDataFlow_new (script [] False)))
     = Inr (True, [ConnectHandlerCalled 7 NoError (Some 7),
                   ReadHandlerCalled 1 [] (InnerError 1) (Some 1),
                   WriteHandlerCalled 2 (InnerError 2) (Some 2)])
   \<and> map_sum id (\<lambda>s. (error_reported s, calls s))
      (run scripted (butlast late_read) (TlsDataFlow_new (script [] False)))
     = Inr (True, [ConnectHandlerCalled 7 NoError (Some 7),
                   WriteHandlerCalled 2 (InnerError 2) (Some 2)])
   \<and> map_sum id (\<lambda>s. (error_reported s, calls s))
      (run scripted late_read (TlsDataFlow_new (script [] False)))
     = Inr (True, [ConnectHandlerCalled 7 NoError (Some 7),
                   WriteHandlerCalled 2 (InnerError 2) (Some 2),
                   ReadHandlerCalled 1 [105] NoError None])"
  by (simp add: flow_defs scenario_defs two_errors_def late_read_def)

section \<open>Operations in flight on the next hop\<close>

lemma pumping_iff:
  "pumping s \<longleftrightarrow> data_state (state_machine s) \<and> next_hop_connects s = []
     \<and> length (next_hop_reads s) \<le> 1 \<and> length (next_hop_writes s) \<le> 1
     \<and> list_all (\<lambda>k. \<not> handshake_lambda k) (map snd (next_hop_reads s))
     \<and> list_all (\<lambda>k. \<not> handshake_lambda k) (map snd (next_hop_writes s))"
  by (cases "state_machine s") (auto simp add: pumping_def coalesced_def in_flight_def)

lemma pumping_TryReadNextHop: "pumping s \<Longrightarrow> pumping (TryReadNextHop s)"
  by (simp add: pumping_iff TryReadNextHop_def IsReading_def next_hop_Read_def)

lemma pumping_TryWriteNextHop: "pumping s \<Longrightarrow> pumping (TryWriteNextHop T s)"
  by (simp add: pumping_iff TryWriteNextHop_def IsWriting_def next_hop_Write_def split: prod.splits)

lemma pumping_Post: "pumping (Post c s) = pumping s"
  by (simp add: pumping_iff Post_def)

lemma pumping_tunnel: "pumping (s\<lparr>tunnel := t\<rparr>) = pumping s"
  by (simp add: pumping_iff)

lemma pumping_TryRead: "pumping s \<Longrightarrow> pumping (TryRead T s)"
  by (simp add: TryRead_def Let_def pumping_TryReadNextHop pumping_Post pumping_tunnel
      split: prod.splits)

lemma pumping_TryWrite: "pumping s \<Longrightarrow> pumping (TryWrite T s)"
  by (simp add: TryWrite_def pumping_TryWriteNextHop pumping_Post)

lemma pumping_ReportError: "pumping (snd (ReportError e b s)) = pumping s"
  by (cases b; cases "read_handler s"; cases "write_handler s")
     (simp_all add: ReportError_read_first ReportError_write_first pumping_iff)

lemma pumping_Process: "pumping s \<Longrightarrow> pumping (Process T s)"
proof -
  assume p: "pumping s"
  have e: "pumping (snd (ReportError (pending_error s) True s))"
    using p by (simp add: pumping_ReportError)
  have "\<And>x. pumping x \<Longrightarrow> pumping (x\<lparr>error_reported := True\<rparr>)"
    by (simp add: pumping_iff)
  with e p show ?thesis
    by (cases "ReportError (pending_error s) True s"; cases "fst (ReportError (pending_error s) True s)")
       (auto simp add: Process_def pumping_TryRead pumping_TryWrite)
qed


lemma coalesced_HandShake:
  assumes "state_machine s = Connecting" and "in_flight s = []" and "HandShake T s = Inr s1"
  shows "coalesced s1"
proof (cases "tunnel_HandShake T (tunnel s)")
  case (Pair a t1)
  obtain b t2 where r: "tunnel_ReadCipherTextData T t1 = (b, t2)"
    by (cases "tunnel_ReadCipherTextData T t1")
  from assms(2) have e: "next_hop_connects s = []" "next_hop_reads s = []" "next_hop_writes s = []"
    by (simp_all add: in_flight_def)
  show ?thesis
  proof (cases a)
    case Success
    then show ?thesis using Pair r assms e
      by (cases "connect_handler s"; cases "b = []")
         (auto simp add: HandShake_def call_connect_handler_def record_call_def next_hop_Write_def
            coalesced_def in_flight_def)
  next
    case WantIo
    then show ?thesis using Pair r assms e
      by (cases "b = []")
         (auto simp add: HandShake_def next_hop_Write_def next_hop_Read_def coalesced_def in_flight_def)
  next
    case ActionError
    then show ?thesis using Pair r assms e
      by (cases "connect_handler s")
         (auto simp add: HandShake_def call_connect_handler_def record_call_def coalesced_def
            in_flight_def Errored_def)
  qed
qed

lemma coalesced_call_connect_handler:
  assumes "in_flight s = []" and "state_machine s = Connecting \<or> state_machine s = ErroredState"
    and "call_connect_handler e s = Inr s1"
  shows "coalesced s1"
  using assms
  by (cases "connect_handler s")
     (auto simp add: call_connect_handler_def record_call_def coalesced_def in_flight_def)

lemma coalesced_handshake_lambda:
  assumes "state_machine s = Connecting" and "in_flight s = []" and "handshake_lambda k"
    and "run_continuation T k buffer error s = Inr s1"
  shows "coalesced s1"
proof (cases k)
  case (ConnectCb c)
  show ?thesis
  proof (cases "canceled c s")
    case True
    then show ?thesis using assms ConnectCb by (auto simp add: coalesced_def)
  next
    case False
    then show ?thesis using assms ConnectCb
      coalesced_HandShake [of s T s1] coalesced_call_connect_handler [of s error s1]
      by (cases "is_error error") auto
  qed
next
  case (HandShakeWriteCb c)
  show ?thesis
  proof (cases "canceled c s")
    case True
    then show ?thesis using assms HandShakeWriteCb by (auto simp add: coalesced_def)
  next
    case False
    then show ?thesis using assms HandShakeWriteCb
      coalesced_HandShake [of s T s1]
      coalesced_call_connect_handler [of "s\<lparr>state_machine := Errored (state_machine s)\<rparr>" error s1]
      by (cases "is_error error") (auto simp add: in_flight_def Errored_def)
  qed
next
  case (HandShakeReadCb c)
  show ?thesis
  proof (cases "canceled c s")
    case True
    then show ?thesis using assms HandShakeReadCb by (auto simp add: coalesced_def)
  next
    case False
    then show ?thesis using assms HandShakeReadCb
      coalesced_HandShake [of "s\<lparr>tunnel := tunnel_WriteCipherTextData T buffer (tunnel s)\<rparr>" T s1]
      coalesced_call_connect_handler [of "s\<lparr>state_machine := Errored (state_machine s)\<rparr>" error s1]
      by (cases "is_error error")
         (auto simp add: in_flight_def Errored_def Let_def split: if_splits)
  qed
next
  case (NextReadCb c)
  then show ?thesis using assms by simp
next
  case (NextWriteCb c)
  then show ?thesis using assms by simp
qed

lemma pumping_report:
  assumes "pumping s"
  shows "pumping (case ReportError e b s of
           (False, s1) \<Rightarrow> s1\<lparr>pending_error := e\<rparr>
         | (True, s1) \<Rightarrow> s1\<lparr>error_reported := True\<rparr>)"
proof -
  have "pumping (snd (ReportError e b s))"
    using assms by (simp add: pumping_ReportError)
  moreover have "\<And>x. pumping x \<Longrightarrow> pumping (x\<lparr>error_reported := True\<rparr>)"
    "\<And>x. pumping x \<Longrightarrow> pumping (x\<lparr>pending_error := e\<rparr>)"
    by (simp_all add: pumping_iff)
  ultimately show ?thesis
    by (cases "ReportError e b s"; cases "fst (ReportError e b s)") auto
qed

lemma pumping_pump_lambda:
  assumes "pumping s" and "\<not> handshake_lambda k"
    and "run_continuation T k buffer error s = Inr s1"
  shows "pumping s1"
proof (cases k)
  case (NextReadCb c)
  have "pumping (Process T (s\<lparr>tunnel := tunnel_WriteCipherTextData T buffer (tunnel s)\<rparr>))"
    using assms(1) by (simp add: pumping_Process pumping_tunnel)
  then show ?thesis using assms NextReadCb pumping_report [OF assms(1), of error True]
    by (cases "canceled c s"; cases "is_error error")
       (auto split: prod.splits bool.splits)
next
  case (NextWriteCb c)
  have "pumping (Process T s)"
    using assms(1) by (simp add: pumping_Process)
  then show ?thesis using assms NextWriteCb pumping_report [OF assms(1), of error False]
    by (cases "canceled c s"; cases "is_error error")
       (auto split: prod.splits bool.splits)
qed (use assms in simp_all)

lemma pumping_coalesced: "pumping s \<Longrightarrow> coalesced s"
  by (simp add: pumping_def)

lemma coalesced_cases:
  assumes "coalesced s"
  obtains (idle) "state_machine s = Init \<or> state_machine s = ErroredState" "in_flight s = []"
  | (handshake) "state_machine s = Connecting" "length (in_flight s) \<le> 1"
      "list_all handshake_lambda (in_flight s)"
  | (pump) "pumping s"
  using assms
  by (cases "state_machine s = Connecting"; cases "data_state (state_machine s)")
     (auto simp add: coalesced_def pumping_def)


lemma coalesced_run_closure:
  assumes "coalesced s" and "run_closure c s = Inr s1"
  shows "coalesced s1"
proof (cases c)
  case (ReadDelivery b k)
  then show ?thesis using assms
    by (cases "canceled k s"; cases "state_machine s"; cases "read_handler s")
       (auto simp add: coalesced_def in_flight_def record_call_def)
next
  case (WriteDelivery k)
  then show ?thesis using assms
    by (cases "canceled k s"; cases "state_machine s"; cases "write_handler s")
       (auto simp add: coalesced_def in_flight_def record_call_def)
qed

lemma coalesced_Read:
  assumes "coalesced s" and "Read T b h s = Inr (c, s1)"
  shows "coalesced s1"
proof -
  from assms(2) have er: "\<not> error_reported s"
    by (auto simp add: Read_def split: if_splits)
  from assms(2) er obtain st where st: "ReadBegin (state_machine s) = Some st"
    by (cases "ReadBegin (state_machine s)") (auto simp add: Read_def Cancelable_new_def)
  define s0 where "s0 = s\<lparr>fresh := Suc (fresh s), read_cancelable := fresh s,
      read_handler := Some h, state_machine := st\<rparr>"
  have s1: "s1 = Process T s0"
    using assms er st by (auto simp add: Read_def Cancelable_new_def s0_def Let_def)
  have "pumping s0"
    using assms(1) st
    by (cases "state_machine s") (auto simp add: pumping_def coalesced_def in_flight_def s0_def)
  then show ?thesis by (simp add: s1 pumping_Process pumping_coalesced)
qed

lemma coalesced_Write:
  assumes "coalesced s" and "Write T b h s = Inr (c, s1)"
  shows "coalesced s1"
proof -
  from assms(2) have er: "\<not> error_reported s"
    by (auto simp add: Write_def split: if_splits)
  from assms(2) er obtain st where st: "WriteBegin (state_machine s) = Some st"
    by (cases "WriteBegin (state_machine s)") (auto simp add: Write_def Cancelable_new_def)
  define s0 where "s0 = s\<lparr>fresh := Suc (fresh s), write_cancelable := fresh s,
      write_handler := Some h, state_machine := st,
      tunnel := tunnel_WritePlainTextData T b (tunnel s)\<rparr>"
  have s1: "s1 = Process T s0"
    using assms er st by (auto simp add: Write_def Cancelable_new_def s0_def Let_def)
  have "pumping s0"
    using assms(1) st
    by (cases "state_machine s") (auto simp add: pumping_def coalesced_def in_flight_def s0_def)
  then show ?thesis by (simp add: s1 pumping_Process pumping_coalesced)
qed

lemma coalesced_Connect:
  assumes "coalesced s" and "Connect T e h s = Inr (c, s1)"
  shows "coalesced s1"
  using assms
  by (cases "state_machine s")
     (auto simp add: Connect_def Cancelable_new_def next_hop_Connect_def Let_def coalesced_def
        in_flight_def)

lemma coalesced_completion:
  assumes "coalesced s" and "in_flight s = pre @ k # post"
    and "coalesced s0 \<and> state_machine s0 = state_machine s \<and> in_flight s0 = pre @ post"
    and "run_continuation T k buffer error s0 = Inr s1"
  shows "coalesced s1"
  using assms(1)
proof (cases rule: coalesced_cases)
  case idle
  then show ?thesis using assms(2) by simp
next
  case handshake
  then have "pre = []" "post = []" "handshake_lambda k"
    using assms(2) by (cases pre; auto)+
  then show ?thesis
    using coalesced_handshake_lambda [of s0 k T buffer error s1] assms handshake by simp
next
  case pump
  then have "list_all (\<lambda>k. \<not> handshake_lambda k) (in_flight s)"
    by (simp add: pumping_iff in_flight_def)
  then have "\<not> handshake_lambda k"
    using assms(2) by simp
  moreover have "pumping s0"
    using assms(3) pump by (simp add: pumping_def)
  ultimately show ?thesis
    using pumping_pump_lambda [of s0 k T buffer error s1] assms(4) by (simp add: pumping_coalesced)
qed

lemma coalesced_drop_connect:
  "coalesced s \<Longrightarrow> next_hop_connects s = k # ks \<Longrightarrow>
   coalesced (s\<lparr>next_hop_connects := ks\<rparr>)
   \<and> in_flight (s\<lparr>next_hop_connects := ks\<rparr>) = ks @ map snd (next_hop_reads s) @ map snd (next_hop_writes s)"
  by (cases "state_machine s") (auto simp add: coalesced_def in_flight_def)

lemma coalesced_drop_read:
  "coalesced s \<Longrightarrow> next_hop_reads s = k # ks \<Longrightarrow>
   coalesced (s\<lparr>next_hop_reads := ks\<rparr>)
   \<and> in_flight (s\<lparr>next_hop_reads := ks\<rparr>) = next_hop_connects s @ map snd ks @ map snd (next_hop_writes s)"
  by (cases "state_machine s") (auto simp add: coalesced_def in_flight_def)

lemma coalesced_drop_write:
  "coalesced s \<Longrightarrow> next_hop_writes s = k # ks \<Longrightarrow>
   coalesced (s\<lparr>next_hop_writes := ks\<rparr>)
   \<and> in_flight (s\<lparr>next_hop_writes := ks\<rparr>) = next_hop_connects s @ map snd (next_hop_reads s) @ map snd ks"
  by (cases "state_machine s") (auto simp add: coalesced_def in_flight_def)

lemma coalesced_step:
  assumes "coalesced s" and "step T a s = Inr s1"
  shows "coalesced s1"
proof (cases a)
  case (CallConnect e h)
  then show ?thesis using assms coalesced_Connect [of s T e h]
    by (auto simp add: drop_result_def split: sum.splits)
next
  case (CallRead b h)
  then show ?thesis using assms coalesced_Read [of s T b h]
    by (auto simp add: drop_result_def split: sum.splits)
next
  case (CallWrite b h)
  then show ?thesis using assms coalesced_Write [of s T b h]
    by (auto simp add: drop_result_def split: sum.splits)
next
  case (CallCloseWrite h)
  then show ?thesis using assms by (auto simp add: CloseWrite_def)
next
  case (CancelToken c)
  then show ?thesis using assms by (auto simp add: Cancel_def coalesced_def in_flight_def)
next
  case Destroy
  then show ?thesis using assms
    by (auto simp add: TlsDataFlow_delete_def Cancel_def coalesced_def in_flight_def)
next
  case (ConnectCompletes e)
  show ?thesis
  proof (cases "next_hop_connects s")
    case Nil
    then show ?thesis using assms ConnectCompletes by simp
  next
    case (Cons k ks)
    then show ?thesis
      using assms ConnectCompletes coalesced_drop_connect [of s k ks]
        coalesced_completion [of s "[]" k _ "s\<lparr>next_hop_connects := ks\<rparr>" T "[]" e s1]
      by (simp add: in_flight_def)
  qed
next
  case (ReadCompletes b e)
  show ?thesis
  proof (cases "next_hop_reads s")
    case Nil
    then show ?thesis using assms ReadCompletes by simp
  next
    case (Cons nk ks)
    obtain n k where nk: "nk = (n, k)" by (cases nk)
    show ?thesis
      using assms ReadCompletes Cons nk coalesced_drop_read [of s nk ks]
        coalesced_completion [of s "next_hop_connects s" k _ "s\<lparr>next_hop_reads := ks\<rparr>" T b e s1]
      by (simp add: in_flight_def)
  qed
next
  case (WriteCompletes e)
  show ?thesis
  proof (cases "next_hop_writes s")
    case Nil
    then show ?thesis using assms WriteCompletes by simp
  next
    case (Cons bk ks)
    obtain b k where bk: "bk = (b, k)" by (cases bk)
    show ?thesis
      using assms WriteCompletes Cons bk coalesced_drop_write [of s bk ks]
        coalesced_completion [of s "next_hop_connects s @ map snd (next_hop_reads s)" k _
          "s\<lparr>next_hop_writes := ks\<rparr>" T "[]" e s1]
      by (simp add: in_flight_def)
  qed
next
  case RunloopTurn
  show ?thesis
  proof (cases "runloop s")
    case Nil
    then show ?thesis using assms RunloopTurn by simp
  next
    case (Cons c cs)
    have "coalesced (s\<lparr>runloop := cs\<rparr>) = coalesced s"
      by (simp add: coalesced_def in_flight_def)
    then have "coalesced (s\<lparr>runloop := cs\<rparr>)"
      using assms(1) by simp
    then show ?thesis
      using assms RunloopTurn Cons coalesced_run_closure [of "s\<lparr>runloop := cs\<rparr>" c s1] by simp
  qed
qed

lemma coalesced_run:
  "coalesced s \<Longrightarrow> run T as s = Inr s1 \<Longrightarrow> coalesced s1"
proof (induction as arbitrary: s)
  case Nil
  then show ?case by simp
next
  case (Cons a as)
  then show ?case
    by (cases "step T a s") (auto dest: coalesced_step)
qed

lemma coalesced_new: "coalesced (TlsDataFlow_new t)"
  by (simp add: coalesced_def TlsDataFlow_new_def in_flight_def)

lemma coalesced_bounds:
  "coalesced s \<Longrightarrow> length (next_hop_reads s) \<le> 1 \<and> length (next_hop_writes s) \<le> 1"
  by (cases "state_machine s = Connecting"; cases "data_state (state_machine s)")
     (auto simp add: coalesced_def in_flight_def)

text \<open>
  Claim C8. In every state a run can reach from a new flow (a failed assertion ends the
  run), at most one read and at most one write are in flight on the next hop; and
  \<^verbatim>\<open>TryReadNextHop\<close> (\<^verbatim>\<open>TryWriteNextHop\<close>) consults \<^verbatim>\<open>IsReading\<close>
  (\<^verbatim>\<open>IsWriting\<close>) first and does nothing when an operation of that kind is in flight.
\<close>

theorem one_read_one_write_in_flight:
  assumes "run T as (TlsDataFlow_new t) = Inr s"
  shows "length (next_hop_reads s) \<le> 1 \<and> length (next_hop_writes s) \<le> 1
     \<and> (IsReading s \<longrightarrow> TryReadNextHop s = s)
     \<and> (IsWriting s \<longrightarrow> TryWriteNextHop T s = s)"
  using coalesced_bounds [OF coalesced_run [OF coalesced_new assms]]
  by (simp add: TryReadNextHop_def TryWriteNextHop_def)

theorem one_read_one_write_in_flight_witness:
  "map_sum id (\<lambda>s. (length (next_hop_reads s), length (next_hop_writes s), IsReading s,
        TryReadNextHop s = s, IsWriting s, TryWriteNextHop scripted s = s))
      (run scripted (take 4 two_errors) (TlsDataFlow_new (script [] False)))
     = Inr (1, 1, True, True, True, True)"
proof -
  obtain s where r: "run scripted (take 4 two_errors) (TlsDataFlow_new (script [] False)) = Inr s"
    by (simp add: flow_defs scenario_defs)
  from one_read_one_write_in_flight [OF r] r show ?thesis
    by (auto simp add: flow_defs scenario_defs)
qed

section \<open>Calls and armings\<close>






























end
